theory Spec2Isabelle
  imports Complex_Main "HOL-Library.Word" "HOL-Library.Signed_Division"
begin

section \<open>Boids: a shallow embedding of boids.c\<close>

text \<open>
  The program keeps a fixed array of agents, a flocking mode, a pattern clock and the
  bookkeeping of its automatic scheduler in file-scope variables. Each frame of
  \<^verbatim>\<open>main\<close> drains the X11 event queue, calls \<^verbatim>\<open>check_auto_mode_timing\<close> and then
  \<^verbatim>\<open>update_boids\<close>.

  Numbers: the C types \<^verbatim>\<open>float\<close> and \<^verbatim>\<open>double\<close> are embedded as \<^typ>\<open>real\<close> with exact
  arithmetic, so rounding, overflow and the special values of IEEE arithmetic are outside
  this development, with one exception: \<^verbatim>\<open>limit_speed\<close> has a second embedding in which every
  operation is rounded to single precision. The macro \<^verbatim>\<open>PI\<close>, the decimal expansion of \<open>\<pi>\<close> to double precision, is
  embedded as \<^term>\<open>pi\<close>. The type \<^verbatim>\<open>int\<close> is embedded as \<^typ>\<open>int\<close>, with C's truncating
  division written \<open>sdiv\<close>; the one place where a wider value is narrowed to \<^verbatim>\<open>int\<close>
  (the elapsed seconds of the scheduler) goes through a 32-bit word. The flag \<^verbatim>\<open>auto_mode\<close>,
  an \<^verbatim>\<open>int\<close> that is only ever 0 or 1, is a \<^typ>\<open>bool\<close>.

  Not embedded: the drawing calls of X11 and the random start of \<^verbatim>\<open>init_boids\<close>; the function
  \<^verbatim>\<open>clamp\<close> and the macros \<^verbatim>\<open>PHI\<close> and \<^verbatim>\<open>E\<close>, which the program never uses.
\<close>

subsection \<open>Constants\<close>

definition NUM_BOIDS :: nat where "NUM_BOIDS = 500"
definition MAX_SPEED :: real where "MAX_SPEED = 4"
definition NEIGHBOR_RADIUS :: int where "NEIGHBOR_RADIUS = 50"
definition ALIGNMENT_WEIGHT :: real where "ALIGNMENT_WEIGHT = 5 / 100"
definition COHESION_WEIGHT :: real where "COHESION_WEIGHT = 1 / 100"
definition SEPARATION_WEIGHT :: real where "SEPARATION_WEIGHT = 15 / 100"
definition PATTERN_FORCE :: real where "PATTERN_FORCE = 2 / 10"
definition PATTERN_SEPARATION_WEIGHT :: real where "PATTERN_SEPARATION_WEIGHT = 1 / 1000"
definition PI :: real where "PI = pi"
definition BOIDS_TIME :: int where "BOIDS_TIME = 30"
definition PATTERN_TIME :: int where "PATTERN_TIME = 35"

subsection \<open>Data\<close>

text \<open>
  The struct \<^verbatim>\<open>Boid\<close>. Its fields \<^verbatim>\<open>x\<close> and \<^verbatim>\<open>y\<close> are called \<open>pos_x\<close> and \<open>pos_y\<close> here.
\<close>

record Boid =
  pos_x :: real
  pos_y :: real
  vx :: real
  vy :: real
  target_x :: real
  target_y :: real
  index :: int

datatype FlockingMode =
    MODE_NORMAL
  | MODE_LISSAJOUS
  | MODE_ROSE
  | MODE_HYPOCYCLOID
  | MODE_BUTTERFLY
  | MODE_MAURER_ROSE
  | MODE_SPIROGRAPH
  | MODE_FERMAT_SPIRAL
  | MODE_CARDIOID

text \<open>
  The file-scope variables. \<open>rand_calls\<close> counts the calls of \<^verbatim>\<open>rand\<close> made so far: the
  generator itself is a parameter \<open>rnd\<close> of the functions that draw from it, the sequence of
  values that successive calls return.
\<close>

record globals =
  boids :: "Boid list"
  current_mode :: FlockingMode
  pattern_time :: real
  auto_mode :: bool
  last_mode_change :: int
  last_pattern_mode :: FlockingMode
  rand_calls :: nat

subsection \<open>Partial arithmetic\<close>

text \<open>
  The divisions and the square root of \<^verbatim>\<open>apply_pattern_force\<close> and of the curves it calls
  whose operand is not a constant (the division by \<^verbatim>\<open>r\<close> of the hypocycloid and of the
  spirograph, the root of \<^verbatim>\<open>t\<close> of the Fermat spiral, the two divisions by \<^verbatim>\<open>dist\<close>) are
  written as partial operations: \<open>None\<close> stands for the NaN or infinity that the C operation
  would produce. The other divisions (by \<^verbatim>\<open>speed\<close> under \<^verbatim>\<open>speed > MAX_SPEED\<close>, by \<^verbatim>\<open>count\<close>
  under \<^verbatim>\<open>count > 0\<close>) and the square roots of sums of two squares are written with the
  total operations of \<^typ>\<open>real\<close>.
\<close>

definition fdiv :: "real \<Rightarrow> real \<Rightarrow> real option" where
  "fdiv a b = (if b = 0 then None else Some (a / b))"

definition fsqrt :: "real \<Rightarrow> real option" where
  "fsqrt a = (if a < 0 then None else Some (sqrt a))"

subsection \<open>Curve library\<close>

definition get_scale_factor :: "int \<Rightarrow> int \<Rightarrow> real" where
  "get_scale_factor width height = min (real_of_int width) (real_of_int height) * (3 / 10)"

definition calculate_lissajous_position :: "real \<Rightarrow> int \<Rightarrow> int \<Rightarrow> real \<times> real" where
  "calculate_lissajous_position t width height =
     (let scale = get_scale_factor width height; a = 3; b = 2
      in (real_of_int (width sdiv 2) + scale * sin (a * t),
          real_of_int (height sdiv 2) + scale * sin (b * t + PI / 2)))"

definition calculate_rose_position :: "real \<Rightarrow> int \<Rightarrow> int \<Rightarrow> real \<times> real" where
  "calculate_rose_position t width height =
     (let scale = get_scale_factor width height; k = 3; r = scale * sin (k * t)
      in (real_of_int (width sdiv 2) + r * cos t,
          real_of_int (height sdiv 2) + r * sin t))"

definition calculate_hypocycloid_position :: "real \<Rightarrow> int \<Rightarrow> int \<Rightarrow> (real \<times> real) option" where
  "calculate_hypocycloid_position t width height =
     (let scale = get_scale_factor width height; R = scale; r = R / 4; d = r
      in case fdiv ((R - r) * t) r of
           None \<Rightarrow> None
         | Some q \<Rightarrow>
             Some (real_of_int (width sdiv 2) + (R - r) * cos t + d * cos q,
                   real_of_int (height sdiv 2) + (R - r) * sin t - d * sin q))"

definition calculate_butterfly_position :: "real \<Rightarrow> int \<Rightarrow> int \<Rightarrow> real \<times> real" where
  "calculate_butterfly_position t width height =
     (let scale = get_scale_factor width height;
          r = exp (cos t) - 2 * cos (4 * t) + (sin (t / 12)) ^ 5
      in (real_of_int (width sdiv 2) + scale / 2 * sin t * r,
          real_of_int (height sdiv 2) + scale / 2 * cos t * r))"

definition calculate_maurer_rose_position :: "real \<Rightarrow> int \<Rightarrow> int \<Rightarrow> real \<times> real" where
  "calculate_maurer_rose_position t width height =
     (let scale = get_scale_factor width height * (15 / 10); n = 7; d = 71; k = t * d;
          r = scale * (8 / 10 + 2 / 10 * sin (n * k * PI / 180))
      in (real_of_int (width sdiv 2) + r * cos (k * PI / 180),
          real_of_int (height sdiv 2) + r * sin (k * PI / 180)))"

definition calculate_spirograph_position :: "real \<Rightarrow> int \<Rightarrow> int \<Rightarrow> (real \<times> real) option" where
  "calculate_spirograph_position t width height =
     (let scale = get_scale_factor width height; R = scale * (8 / 10); r = R * (4 / 10);
          d = r * (8 / 10)
      in case fdiv ((R - r) * t) r of
           None \<Rightarrow> None
         | Some q \<Rightarrow>
             Some (real_of_int (width sdiv 2) + (R - r) * cos t + d * cos q,
                   real_of_int (height sdiv 2) + (R - r) * sin t - d * sin q))"

definition calculate_fermat_spiral_position :: "real \<Rightarrow> int \<Rightarrow> int \<Rightarrow> (real \<times> real) option" where
  "calculate_fermat_spiral_position t width height =
     (let scale = get_scale_factor width height; a = scale * (5 / 10)
      in case fsqrt t of
           None \<Rightarrow> None
         | Some sq \<Rightarrow>
             (let r = a * sq; angle = t * 5
              in Some (real_of_int (width sdiv 2) + r * cos angle,
                       real_of_int (height sdiv 2) + r * sin angle)))"

definition calculate_cardioid_position :: "real \<Rightarrow> int \<Rightarrow> int \<Rightarrow> real \<times> real" where
  "calculate_cardioid_position t width height =
     (let scale = get_scale_factor width height; a = scale * (9 / 10); r = a * (1 + cos t)
      in (real_of_int (width sdiv 2) + r * cos t,
          real_of_int (height sdiv 2) + r * sin t))"

subsection \<open>Flocking engine\<close>

definition limit_speed :: "Boid \<Rightarrow> Boid" where
  "limit_speed b =
     (let speed = sqrt (vx b * vx b + vy b * vy b)
      in if speed > MAX_SPEED
         then b\<lparr>vx := (vx b / speed) * MAX_SPEED, vy := (vy b / speed) * MAX_SPEED\<rparr>
         else b)"

text \<open>
  The functions below work on the array \<^verbatim>\<open>boids\<close>; a pointer \<^verbatim>\<open>&boids[i]\<close> is the position
  \<open>i\<close>. The body of the loop of \<^verbatim>\<open>apply_separation_force\<close>, for one \<open>j\<close>, on the locals
  \<^verbatim>\<open>avoid_x\<close>, \<^verbatim>\<open>avoid_y\<close> and \<^verbatim>\<open>count\<close>:
\<close>

definition separation_step ::
  "Boid list \<Rightarrow> nat \<Rightarrow> nat \<Rightarrow> real \<times> real \<times> int \<Rightarrow> real \<times> real \<times> int" where
  "separation_step bs i j acc =
     (case acc of (avoid_x, avoid_y, count) \<Rightarrow>
        if index (bs ! i) = int j then acc
        else
          let dx = pos_x (bs ! j) - pos_x (bs ! i);
              dy = pos_y (bs ! j) - pos_y (bs ! i);
              dist = sqrt (dx * dx + dy * dy)
          in if dist < real_of_int (NEIGHBOR_RADIUS sdiv 2) \<and> dist > 0
             then (avoid_x - dx, avoid_y - dy, count + 1)
             else acc)"

definition apply_separation_force :: "Boid list \<Rightarrow> nat \<Rightarrow> real \<Rightarrow> Boid list" where
  "apply_separation_force bs i weight =
     (case fold (separation_step bs i) [0..<NUM_BOIDS] (0, 0, 0) of
        (avoid_x, avoid_y, count) \<Rightarrow>
          if count > 0
          then bs[i := (bs ! i)\<lparr>vx := vx (bs ! i) + avoid_x * weight,
                                 vy := vy (bs ! i) + avoid_y * weight\<rparr>]
          else bs)"

text \<open>The \<^verbatim>\<open>switch\<close> of \<^verbatim>\<open>apply_pattern_force\<close> over the pattern modes.\<close>

fun pattern_target :: "FlockingMode \<Rightarrow> real \<Rightarrow> int \<Rightarrow> int \<Rightarrow> (real \<times> real) option" where
  "pattern_target MODE_LISSAJOUS t width height = Some (calculate_lissajous_position t width height)"
| "pattern_target MODE_ROSE t width height = Some (calculate_rose_position t width height)"
| "pattern_target MODE_HYPOCYCLOID t width height = calculate_hypocycloid_position t width height"
| "pattern_target MODE_BUTTERFLY t width height = Some (calculate_butterfly_position t width height)"
| "pattern_target MODE_MAURER_ROSE t width height = Some (calculate_maurer_rose_position t width height)"
| "pattern_target MODE_SPIROGRAPH t width height = calculate_spirograph_position t width height"
| "pattern_target MODE_FERMAT_SPIRAL t width height = calculate_fermat_spiral_position t width height"
| "pattern_target MODE_CARDIOID t width height = Some (calculate_cardioid_position t width height)"
| "pattern_target MODE_NORMAL t width height = Some (0, 0)"

text \<open>
  The last equation gives the initial values of the locals \<^verbatim>\<open>target_x\<close> and \<^verbatim>\<open>target_y\<close>; it is
  never used, since \<^verbatim>\<open>apply_pattern_force\<close> returns before it reads them.
\<close>

text \<open>
  \<^verbatim>\<open>apply_pattern_force\<close> reads the globals \<^verbatim>\<open>current_mode\<close> and \<^verbatim>\<open>pattern_time\<close>, here the
  parameters \<open>mode\<close> and \<open>ptime\<close>. In the \<^verbatim>\<open>default\<close> case of the \<^verbatim>\<open>switch\<close> it returns at once.
\<close>

definition apply_pattern_force ::
  "FlockingMode \<Rightarrow> real \<Rightarrow> Boid list \<Rightarrow> nat \<Rightarrow> int \<Rightarrow> int \<Rightarrow> Boid list option" where
  "apply_pattern_force mode ptime bs i width height =
     (let t = real_of_int (index (bs ! i)) / real NUM_BOIDS * 10 + ptime
      in if mode = MODE_NORMAL then Some bs
         else
           case pattern_target mode t width height of
             None \<Rightarrow> None
           | Some (tx, ty) \<Rightarrow>
               (let dx = tx - pos_x (bs ! i);
                    dy = ty - pos_y (bs ! i);
                    dist = sqrt (dx * dx + dy * dy)
                in if dist > 0
                   then
                     (case fdiv dx dist of
                        None \<Rightarrow> None
                      | Some ux \<Rightarrow>
                          (case fdiv dy dist of
                             None \<Rightarrow> None
                           | Some uy \<Rightarrow>
                               Some (apply_separation_force
                                 (bs[i := (bs ! i)\<lparr>vx := vx (bs ! i) + ux * PATTERN_FORCE,
                                                   vy := vy (bs ! i) + uy * PATTERN_FORCE\<rparr>])
                                 i PATTERN_SEPARATION_WEIGHT)))
                   else Some (apply_separation_force bs i PATTERN_SEPARATION_WEIGHT)))"

text \<open>
  The Normal branch of \<^verbatim>\<open>update_boids\<close> for agent \<open>i\<close>: the body of the scan over \<open>j\<close>, on
  the locals \<^verbatim>\<open>avg_vx\<close>, \<^verbatim>\<open>avg_vy\<close>, \<^verbatim>\<open>center_x\<close>, \<^verbatim>\<open>center_y\<close>, \<^verbatim>\<open>avoid_x\<close>, \<^verbatim>\<open>avoid_y\<close> and
  \<^verbatim>\<open>count\<close>, and then the three additions to the velocity.
\<close>

type_synonym flock_acc = "real \<times> real \<times> real \<times> real \<times> real \<times> real \<times> int"

definition flock_step :: "Boid list \<Rightarrow> nat \<Rightarrow> nat \<Rightarrow> flock_acc \<Rightarrow> flock_acc" where
  "flock_step bs i j acc =
     (case acc of (avg_vx, avg_vy, center_x, center_y, avoid_x, avoid_y, count) \<Rightarrow>
        if i = j then acc
        else
          let dx = pos_x (bs ! j) - pos_x (bs ! i);
              dy = pos_y (bs ! j) - pos_y (bs ! i);
              dist = sqrt (dx * dx + dy * dy)
          in if dist < real_of_int NEIGHBOR_RADIUS \<and> dist > 0
             then
               if dist < real_of_int (NEIGHBOR_RADIUS sdiv 2)
               then (avg_vx + vx (bs ! j), avg_vy + vy (bs ! j),
                     center_x + pos_x (bs ! j), center_y + pos_y (bs ! j),
                     avoid_x - dx, avoid_y - dy, count + 1)
               else (avg_vx + vx (bs ! j), avg_vy + vy (bs ! j),
                     center_x + pos_x (bs ! j), center_y + pos_y (bs ! j),
                     avoid_x, avoid_y, count + 1)
             else acc)"

definition flock_force :: "Boid list \<Rightarrow> nat \<Rightarrow> Boid list" where
  "flock_force bs i =
     (case fold (flock_step bs i) [0..<NUM_BOIDS] (0, 0, 0, 0, 0, 0, 0) of
        (avg_vx, avg_vy, center_x, center_y, avoid_x, avoid_y, count) \<Rightarrow>
          if count > 0
          then
            let avg_vx = avg_vx / real_of_int count;
                avg_vy = avg_vy / real_of_int count;
                center_x = center_x / real_of_int count;
                center_y = center_y / real_of_int count;
                vx1 = vx (bs ! i) + (avg_vx - vx (bs ! i)) * ALIGNMENT_WEIGHT;
                vy1 = vy (bs ! i) + (avg_vy - vy (bs ! i)) * ALIGNMENT_WEIGHT;
                vx2 = vx1 + (center_x - pos_x (bs ! i)) * COHESION_WEIGHT;
                vy2 = vy1 + (center_y - pos_y (bs ! i)) * COHESION_WEIGHT;
                vx3 = vx2 + avoid_x * SEPARATION_WEIGHT;
                vy3 = vy2 + avoid_y * SEPARATION_WEIGHT
            in bs[i := (bs ! i)\<lparr>vx := vx3, vy := vy3\<rparr>]
          else bs)"

text \<open>The end of the loop body of \<^verbatim>\<open>update_boids\<close>: the position moves by the velocity and wraps.\<close>

definition move_and_wrap :: "int \<Rightarrow> int \<Rightarrow> Boid \<Rightarrow> Boid" where
  "move_and_wrap width height b =
     (let x1 = pos_x b + vx b;
          y1 = pos_y b + vy b;
          x2 = (if x1 < 0 then x1 + real_of_int width else x1);
          y2 = (if y1 < 0 then y1 + real_of_int height else y1);
          x3 = (if x2 \<ge> real_of_int width then x2 - real_of_int width else x2);
          y3 = (if y2 \<ge> real_of_int height then y2 - real_of_int height else y2)
      in b\<lparr>pos_x := x3, pos_y := y3\<rparr>)"

text \<open>One iteration of the loop of \<^verbatim>\<open>update_boids\<close>, for agent \<open>i\<close>.\<close>

definition update_boid ::
  "FlockingMode \<Rightarrow> real \<Rightarrow> int \<Rightarrow> int \<Rightarrow> nat \<Rightarrow> Boid list \<Rightarrow> Boid list option" where
  "update_boid mode ptime width height i bs =
     (case (if mode = MODE_NORMAL then Some (flock_force bs i)
            else apply_pattern_force mode ptime bs i width height) of
        None \<Rightarrow> None
      | Some bs1 \<Rightarrow>
          (let bs2 = bs1[i := limit_speed (bs1 ! i)]
           in Some (bs2[i := move_and_wrap width height (bs2 ! i)])))"

fun update_loop ::
  "FlockingMode \<Rightarrow> real \<Rightarrow> int \<Rightarrow> int \<Rightarrow> nat list \<Rightarrow> Boid list \<Rightarrow> Boid list option" where
  "update_loop mode ptime width height [] bs = Some bs"
| "update_loop mode ptime width height (i # is) bs =
     (case update_boid mode ptime width height i bs of
        None \<Rightarrow> None
      | Some bs' \<Rightarrow> update_loop mode ptime width height is bs')"

definition update_boids :: "int \<Rightarrow> int \<Rightarrow> globals \<Rightarrow> globals option" where
  "update_boids width height g =
     (case update_loop (current_mode g) (pattern_time g) width height [0..<NUM_BOIDS] (boids g) of
        None \<Rightarrow> None
      | Some bs \<Rightarrow>
          Some (if current_mode g \<noteq> MODE_NORMAL
                then g\<lparr>boids := bs, pattern_time := pattern_time g + 1 / 100\<rparr>
                else g\<lparr>boids := bs\<rparr>))"

subsection \<open>Pattern scheduler\<close>

text \<open>
  The numbering of the enum \<^verbatim>\<open>FlockingMode\<close>, for the assignment of \<^verbatim>\<open>(rand() % 8) + 1\<close> to
  a mode. Only the values 1 to 8 arise there.
\<close>

definition mode_of_value :: "nat \<Rightarrow> FlockingMode" where
  "mode_of_value n =
     (if n = 1 then MODE_LISSAJOUS
      else if n = 2 then MODE_ROSE
      else if n = 3 then MODE_HYPOCYCLOID
      else if n = 4 then MODE_BUTTERFLY
      else if n = 5 then MODE_MAURER_ROSE
      else if n = 6 then MODE_SPIROGRAPH
      else if n = 7 then MODE_FERMAT_SPIRAL
      else if n = 8 then MODE_CARDIOID
      else MODE_NORMAL)"

text \<open>
  The \<^verbatim>\<open>do\<close> loop of \<^verbatim>\<open>get_next_pattern_mode\<close>: \<open>rnd n\<close> is the value of the call number \<open>n\<close> of
  \<^verbatim>\<open>rand\<close>, \<open>lastm\<close> is \<^verbatim>\<open>last_pattern_mode\<close>. The loop need not end, so the result is an option.
\<close>

partial_function (option) next_mode_loop ::
  "(nat \<Rightarrow> nat) \<Rightarrow> FlockingMode \<Rightarrow> nat \<Rightarrow> (FlockingMode \<times> nat) option" where
  "next_mode_loop rnd lastm n =
     (if mode_of_value (rnd n mod 8 + 1) = lastm
      then next_mode_loop rnd lastm (Suc n)
      else Some (mode_of_value (rnd n mod 8 + 1), Suc n))"

definition get_next_pattern_mode ::
  "(nat \<Rightarrow> nat) \<Rightarrow> globals \<Rightarrow> (FlockingMode \<times> globals) option" where
  "get_next_pattern_mode rnd g =
     (case next_mode_loop rnd (last_pattern_mode g) (rand_calls g) of
        None \<Rightarrow> None
      | Some (next_mode, n) \<Rightarrow> Some (next_mode, g\<lparr>last_pattern_mode := next_mode, rand_calls := n\<rparr>))"

text \<open>
  \<^verbatim>\<open>int elapsed = current_time - last_mode_change\<close>: the difference of two \<^verbatim>\<open>time_t\<close> values,
  narrowed to a 32-bit \<^verbatim>\<open>int\<close>.
\<close>

definition elapsed_seconds :: "int \<Rightarrow> int \<Rightarrow> int" where
  "elapsed_seconds current_time last_change = sint (word_of_int (current_time - last_change) :: 32 word)"

text \<open>\<open>current_time\<close> is the value that \<^verbatim>\<open>time(NULL)\<close> returns in this call.\<close>

definition check_auto_mode_timing :: "(nat \<Rightarrow> nat) \<Rightarrow> int \<Rightarrow> globals \<Rightarrow> globals option" where
  "check_auto_mode_timing rnd current_time g =
     (if \<not> auto_mode g then Some g
      else
        let elapsed = elapsed_seconds current_time (last_mode_change g)
        in if current_mode g = MODE_NORMAL \<and> elapsed \<ge> BOIDS_TIME
           then
             (case get_next_pattern_mode rnd g of
                None \<Rightarrow> None
              | Some (next_mode, g') \<Rightarrow>
                  Some (g'\<lparr>current_mode := next_mode, pattern_time := 0,
                           last_mode_change := current_time\<rparr>))
           else if current_mode g \<noteq> MODE_NORMAL \<and> elapsed \<ge> PATTERN_TIME
           then Some (g\<lparr>current_mode := MODE_NORMAL, pattern_time := 0,
                         last_mode_change := current_time\<rparr>)
           else Some g)"

subsection \<open>The main loop\<close>

text \<open>
  The key symbols that the \<^verbatim>\<open>switch\<close> of \<^verbatim>\<open>main\<close> names (distinct constants of the X11
  header), and any other key symbol.
\<close>

datatype KeySym = XK_l | XK_L | XK_r | XK_R | XK_y | XK_Y | XK_b | XK_B | XK_m | XK_M | XK_s | XK_S | XK_f | XK_F | XK_c | XK_C | XK_n | XK_N | XK_other nat

datatype XEvent = ConfigureNotify int int | KeyPress KeySym | OtherEvent

text \<open>The \<^verbatim>\<open>switch (key)\<close> of \<^verbatim>\<open>main\<close>.\<close>

fun key_press :: "KeySym \<Rightarrow> globals \<Rightarrow> globals" where
  "key_press XK_l g =
     g\<lparr>current_mode := (if current_mode g = MODE_LISSAJOUS then MODE_NORMAL else MODE_LISSAJOUS),
       pattern_time := 0\<rparr>"
| "key_press XK_L g =
     g\<lparr>current_mode := (if current_mode g = MODE_LISSAJOUS then MODE_NORMAL else MODE_LISSAJOUS),
       pattern_time := 0\<rparr>"
| "key_press XK_r g =
     g\<lparr>current_mode := (if current_mode g = MODE_ROSE then MODE_NORMAL else MODE_ROSE),
       pattern_time := 0\<rparr>"
| "key_press XK_R g =
     g\<lparr>current_mode := (if current_mode g = MODE_ROSE then MODE_NORMAL else MODE_ROSE),
       pattern_time := 0\<rparr>"
| "key_press XK_y g =
     g\<lparr>current_mode := (if current_mode g = MODE_HYPOCYCLOID then MODE_NORMAL else MODE_HYPOCYCLOID),
       pattern_time := 0\<rparr>"
| "key_press XK_Y g =
     g\<lparr>current_mode := (if current_mode g = MODE_HYPOCYCLOID then MODE_NORMAL else MODE_HYPOCYCLOID),
       pattern_time := 0\<rparr>"
| "key_press XK_b g =
     g\<lparr>current_mode := (if current_mode g = MODE_BUTTERFLY then MODE_NORMAL else MODE_BUTTERFLY),
       pattern_time := 0\<rparr>"
| "key_press XK_B g =
     g\<lparr>current_mode := (if current_mode g = MODE_BUTTERFLY then MODE_NORMAL else MODE_BUTTERFLY),
       pattern_time := 0\<rparr>"
| "key_press XK_m g =
     g\<lparr>current_mode := (if current_mode g = MODE_MAURER_ROSE then MODE_NORMAL else MODE_MAURER_ROSE),
       pattern_time := 0\<rparr>"
| "key_press XK_M g =
     g\<lparr>current_mode := (if current_mode g = MODE_MAURER_ROSE then MODE_NORMAL else MODE_MAURER_ROSE),
       pattern_time := 0\<rparr>"
| "key_press XK_s g =
     g\<lparr>current_mode := (if current_mode g = MODE_SPIROGRAPH then MODE_NORMAL else MODE_SPIROGRAPH),
       pattern_time := 0\<rparr>"
| "key_press XK_S g =
     g\<lparr>current_mode := (if current_mode g = MODE_SPIROGRAPH then MODE_NORMAL else MODE_SPIROGRAPH),
       pattern_time := 0\<rparr>"
| "key_press XK_f g =
     g\<lparr>current_mode := (if current_mode g = MODE_FERMAT_SPIRAL then MODE_NORMAL else MODE_FERMAT_SPIRAL),
       pattern_time := 0\<rparr>"
| "key_press XK_F g =
     g\<lparr>current_mode := (if current_mode g = MODE_FERMAT_SPIRAL then MODE_NORMAL else MODE_FERMAT_SPIRAL),
       pattern_time := 0\<rparr>"
| "key_press XK_c g =
     g\<lparr>current_mode := (if current_mode g = MODE_CARDIOID then MODE_NORMAL else MODE_CARDIOID),
       pattern_time := 0\<rparr>"
| "key_press XK_C g =
     g\<lparr>current_mode := (if current_mode g = MODE_CARDIOID then MODE_NORMAL else MODE_CARDIOID),
       pattern_time := 0\<rparr>"
| "key_press XK_n g = g\<lparr>current_mode := MODE_NORMAL, pattern_time := 0\<rparr>"
| "key_press XK_N g = g\<lparr>current_mode := MODE_NORMAL, pattern_time := 0\<rparr>"
| "key_press (XK_other k) g = g"

text \<open>
  The state of the loop of \<^verbatim>\<open>main\<close>: its locals \<^verbatim>\<open>width\<close> and \<^verbatim>\<open>height\<close>, and the globals.
\<close>

type_synonym main_state = "int \<times> int \<times> globals"

fun handle_event :: "XEvent \<Rightarrow> main_state \<Rightarrow> main_state" where
  "handle_event (ConfigureNotify w h) (width, height, g) = (w, h, g)"
| "handle_event (KeyPress key) (width, height, g) =
     (if \<not> auto_mode g then (width, height, key_press key g) else (width, height, g))"
| "handle_event OtherEvent (width, height, g) = (width, height, g)"

text \<open>
  One pass of the \<^verbatim>\<open>while (1)\<close> loop: the pass receives the events that are pending and the
  reading of the clock.
\<close>

definition frame :: "(nat \<Rightarrow> nat) \<Rightarrow> XEvent list \<times> int \<Rightarrow> main_state \<Rightarrow> main_state option" where
  "frame rnd inp s =
     (case fold handle_event (fst inp) s of
        (width, height, g) \<Rightarrow>
          (case check_auto_mode_timing rnd (snd inp) g of
             None \<Rightarrow> None
           | Some g1 \<Rightarrow>
               (case update_boids width height g1 of
                  None \<Rightarrow> None
                | Some g2 \<Rightarrow> Some (width, height, g2))))"

fun main_loop ::
  "(nat \<Rightarrow> nat) \<Rightarrow> (XEvent list \<times> int) list \<Rightarrow> main_state \<Rightarrow> main_state option" where
  "main_loop rnd [] s = Some s"
| "main_loop rnd (inp # inps) s =
     (case frame rnd inp s of None \<Rightarrow> None | Some s' \<Rightarrow> main_loop rnd inps s')"

text \<open>The initial values of the file-scope variables; the array starts zeroed.\<close>

definition initial_globals :: globals where
  "initial_globals =
     \<lparr>boids = replicate NUM_BOIDS
        \<lparr>pos_x = 0, pos_y = 0, vx = 0, vy = 0, target_x = 0, target_y = 0, index = 0\<rparr>,
      current_mode = MODE_NORMAL, pattern_time = 0, auto_mode = False,
      last_mode_change = 0, last_pattern_mode = MODE_LISSAJOUS, rand_calls = 0\<rparr>"

subsection \<open>Notions used in the statements\<close>

text \<open>The eight pattern modes.\<close>

definition pattern_modes :: "FlockingMode set" where
  "pattern_modes = {MODE_LISSAJOUS, MODE_ROSE, MODE_HYPOCYCLOID, MODE_BUTTERFLY,
     MODE_MAURER_ROSE, MODE_SPIROGRAPH, MODE_FERMAT_SPIRAL, MODE_CARDIOID}"

text \<open>The toggle inputs of a pattern: the \<^verbatim>\<open>case\<close> labels of its branch in the \<^verbatim>\<open>switch\<close>.\<close>

fun pattern_keys :: "FlockingMode \<Rightarrow> KeySym list" where
  "pattern_keys MODE_LISSAJOUS = [XK_l, XK_L]"
| "pattern_keys MODE_ROSE = [XK_r, XK_R]"
| "pattern_keys MODE_HYPOCYCLOID = [XK_y, XK_Y]"
| "pattern_keys MODE_BUTTERFLY = [XK_b, XK_B]"
| "pattern_keys MODE_MAURER_ROSE = [XK_m, XK_M]"
| "pattern_keys MODE_SPIROGRAPH = [XK_s, XK_S]"
| "pattern_keys MODE_FERMAT_SPIRAL = [XK_f, XK_F]"
| "pattern_keys MODE_CARDIOID = [XK_c, XK_C]"
| "pattern_keys MODE_NORMAL = []"

definition reset_keys :: "KeySym list" where
  "reset_keys = [XK_n, XK_N]"

text \<open>
  A simulated clock: the scheduler is checked at each of the given times in turn; the result
  lists the state after each check.
\<close>

fun check_run :: "(nat \<Rightarrow> nat) \<Rightarrow> int list \<Rightarrow> globals \<Rightarrow> globals list option" where
  "check_run rnd [] g = Some []"
| "check_run rnd (t # ts) g =
     (case check_auto_mode_timing rnd t g of
        None \<Rightarrow> None
      | Some g' \<Rightarrow> (case check_run rnd ts g' of None \<Rightarrow> None | Some gs \<Rightarrow> Some (g' # gs)))"

text \<open>
  The generator is productive from call \<open>n\<close> on for the mode \<open>m\<close> when some later draw
  differs from \<open>m\<close>; it is productive when this holds from every call on, for every mode.
\<close>

definition differs_later :: "(nat \<Rightarrow> nat) \<Rightarrow> nat \<Rightarrow> FlockingMode \<Rightarrow> bool" where
  "differs_later rnd n m = (\<exists>k. mode_of_value (rnd (n + k) mod 8 + 1) \<noteq> m)"

definition productive :: "(nat \<Rightarrow> nat) \<Rightarrow> bool" where
  "productive rnd = (\<forall>n m. differs_later rnd n m)"

text \<open>Two sequences of frames differ only in key presses when they agree once these are dropped.\<close>

fun is_key_press :: "XEvent \<Rightarrow> bool" where
  "is_key_press (KeyPress key) = True"
| "is_key_press (ConfigureNotify w h) = False"
| "is_key_press OtherEvent = False"

definition drop_keys :: "XEvent list \<times> int \<Rightarrow> XEvent list \<times> int" where
  "drop_keys inp = (filter (\<lambda>e. \<not> is_key_press e) (fst inp), snd inp)"

text \<open>
  The patterns that the scheduler selects during a run of the main loop, in order: a frame
  selects a pattern when \<^verbatim>\<open>check_auto_mode_timing\<close> is entered in auto mode with the mode
  Normal and the frame ends in a pattern mode.
\<close>

fun auto_selected ::
  "(nat \<Rightarrow> nat) \<Rightarrow> (XEvent list \<times> int) list \<Rightarrow> main_state \<Rightarrow> FlockingMode list option" where
  "auto_selected rnd [] s = Some []"
| "auto_selected rnd (inp # inps) s =
     (case frame rnd inp s of
        None \<Rightarrow> None
      | Some s' \<Rightarrow>
          (case auto_selected rnd inps s' of
             None \<Rightarrow> None
           | Some ks \<Rightarrow>
               Some (if auto_mode (snd (snd (fold handle_event (fst inp) s))) \<and>
                        current_mode (snd (snd (fold handle_event (fst inp) s))) = MODE_NORMAL \<and>
                        current_mode (snd (snd s')) \<noteq> MODE_NORMAL
                     then current_mode (snd (snd s')) # ks else ks)))"

text \<open>
  States and inputs on which no partial operation fails: a viewport of positive size, a pattern
  clock that is not negative, an array of \<^verbatim>\<open>NUM_BOIDS\<close> agents whose \<^verbatim>\<open>index\<close> fields are not
  negative; resize events of positive size.
\<close>

definition well_formed :: "main_state \<Rightarrow> bool" where
  "well_formed s =
     (case s of (width, height, g) \<Rightarrow>
        0 < width \<and> 0 < height \<and> 0 \<le> pattern_time g \<and> length (boids g) = NUM_BOIDS \<and>
        list_all (\<lambda>b. 0 \<le> index b) (boids g))"

fun valid_event :: "XEvent \<Rightarrow> bool" where
  "valid_event (ConfigureNotify w h) = (0 < w \<and> 0 < h)"
| "valid_event (KeyPress key) = True"
| "valid_event OtherEvent = True"

definition valid_inputs :: "(XEvent list \<times> int) list \<Rightarrow> bool" where
  "valid_inputs inps = list_all (\<lambda>inp. list_all valid_event (fst inp)) inps"

text \<open>The magnitude of an agent's velocity, and an agent's position being inside the viewport.\<close>

definition velocity_norm :: "Boid \<Rightarrow> real" where
  "velocity_norm b = sqrt (vx b * vx b + vy b * vy b)"

definition in_viewport :: "int \<Rightarrow> int \<Rightarrow> Boid \<Rightarrow> bool" where
  "in_viewport width height b =
     (0 \<le> pos_x b \<and> pos_x b < real_of_int width \<and> 0 \<le> pos_y b \<and> pos_y b < real_of_int height)"

text \<open>
  The three-rule flocking model in the words of the specification. The neighbours of agent \<open>i\<close>
  are the other agents at a distance strictly between 0 and \<^verbatim>\<open>NEIGHBOR_RADIUS\<close>; the close
  neighbours are those nearer than half the radius. With at least one neighbour, the velocity
  gains the difference between the neighbours' average velocity and the agent's own, weighted
  by \<^verbatim>\<open>ALIGNMENT_WEIGHT\<close>, the difference between their average position and the agent's own,
  weighted by \<^verbatim>\<open>COHESION_WEIGHT\<close>, and the sum over the close neighbours of the negative
  relative offsets, weighted by \<^verbatim>\<open>SEPARATION_WEIGHT\<close>; with no neighbour it is unchanged.
\<close>

definition distance :: "Boid \<Rightarrow> Boid \<Rightarrow> real" where
  "distance a b = sqrt ((pos_x b - pos_x a)\<^sup>2 + (pos_y b - pos_y a)\<^sup>2)"

definition is_neighbor :: "Boid list \<Rightarrow> nat \<Rightarrow> nat \<Rightarrow> bool" where
  "is_neighbor bs i j =
     (j \<noteq> i \<and> 0 < distance (bs ! i) (bs ! j) \<and>
      distance (bs ! i) (bs ! j) < real_of_int NEIGHBOR_RADIUS)"

definition neighbors :: "Boid list \<Rightarrow> nat \<Rightarrow> nat list" where
  "neighbors bs i = filter (is_neighbor bs i) [0..<NUM_BOIDS]"

definition close_neighbors :: "Boid list \<Rightarrow> nat \<Rightarrow> nat list" where
  "close_neighbors bs i =
     filter (\<lambda>j. distance (bs ! i) (bs ! j) < real_of_int NEIGHBOR_RADIUS / 2) (neighbors bs i)"

definition three_rule_velocity :: "Boid list \<Rightarrow> nat \<Rightarrow> real \<times> real" where
  "three_rule_velocity bs i =
     (let ns = neighbors bs i; cs = close_neighbors bs i; n = real (length ns)
      in if length ns > 0
         then (vx (bs ! i)
                 + ((\<Sum>j\<leftarrow>ns. vx (bs ! j)) / n - vx (bs ! i)) * ALIGNMENT_WEIGHT
                 + ((\<Sum>j\<leftarrow>ns. pos_x (bs ! j)) / n - pos_x (bs ! i)) * COHESION_WEIGHT
                 + (\<Sum>j\<leftarrow>cs. - (pos_x (bs ! j) - pos_x (bs ! i))) * SEPARATION_WEIGHT,
               vy (bs ! i)
                 + ((\<Sum>j\<leftarrow>ns. vy (bs ! j)) / n - vy (bs ! i)) * ALIGNMENT_WEIGHT
                 + ((\<Sum>j\<leftarrow>ns. pos_y (bs ! j)) / n - pos_y (bs ! i)) * COHESION_WEIGHT
                 + (\<Sum>j\<leftarrow>cs. - (pos_y (bs ! j) - pos_y (bs ! i))) * SEPARATION_WEIGHT)
         else (vx (bs ! i), vy (bs ! i)))"

text \<open>
  An array for examples: agent 1 is at distance 5 from agent 0 and moves with velocity (2, 0);
  every other agent rests 1000 away from agent 0.
\<close>

definition example_boid :: "nat \<Rightarrow> Boid" where
  "example_boid j =
     \<lparr>pos_x = (if j = 0 then 0 else if j = 1 then 3 else 1000),
      pos_y = (if j = 1 then 4 else 0),
      vx = (if j = 1 then 2 else 0), vy = 0, target_x = 0, target_y = 0, index = int j\<rparr>"

definition example_flock :: "Boid list" where
  "example_flock = map example_boid [0..<NUM_BOIDS]"

text \<open>A second array for examples: every agent is at the point (400, 480) with velocity (1, 1).\<close>

definition example_crowd :: "Boid list" where
  "example_crowd =
     map (\<lambda>j. \<lparr>pos_x = 400, pos_y = 480, vx = 1, vy = 1, target_x = 0, target_y = 0,
                index = int j\<rparr>) [0..<NUM_BOIDS]"

text \<open>
  A third example, in a viewport 3 wide and 100 high: every agent is at \<open>x = 2.5\<close>; the last
  agent is 60 below the others and moves right with speed 4, the others rest. The mode is Normal.
\<close>

definition narrow_boid :: "nat \<Rightarrow> Boid" where
  "narrow_boid j =
     \<lparr>pos_x = 5 / 2, pos_y = (if j = 499 then 60 else 0),
      vx = (if j = 499 then 4 else 0), vy = 0, target_x = 5 / 2,
      target_y = (if j = 499 then 60 else 0), index = int j\<rparr>"

definition narrow_globals :: globals where
  "narrow_globals = initial_globals\<lparr>boids := map narrow_boid [0..<NUM_BOIDS]\<rparr>"

subsection \<open>The speed clamp in single precision\<close>

text \<open>
  Whether the velocity that \<^verbatim>\<open>limit_speed\<close> stores is within \<^verbatim>\<open>MAX_SPEED\<close> depends on how the
  operations round, so this one function has a second embedding, with the rounding of IEEE 754
  single precision written out. Rounding to the nearest integer, ties to the even one:
\<close>

definition round_even :: "real \<Rightarrow> int" where
  "round_even y =
     (let n = \<lfloor>y\<rfloor>; r = y - of_int n
      in if r < 1 / 2 then n else if 1 / 2 < r then n + 1 else if even n then n else n + 1)"

text \<open>
  Rounding a real number to \<^verbatim>\<open>float\<close> (binary32, round to nearest, ties to even): a number with
  \<open>2 ^ l \<le> \<bar>x\<bar> < 2 ^ (l + 1)\<close> is rounded to a multiple of \<open>2 ^ (l - 23)\<close>, and below the normal range
  to a multiple of \<open>2 ^ (- 149)\<close>. The exponent has no upper bound here: overflow to infinity and
  NaN are outside this model.
\<close>

definition binary32 :: "real \<Rightarrow> real" where
  "binary32 x =
     (if x = 0 then 0
      else let e = max \<lfloor>log 2 \<bar>x\<bar>\<rfloor> (- 126) - 23
           in of_int (round_even (x / 2 powr of_int e)) * 2 powr of_int e)"

text \<open>
  \<^verbatim>\<open>limit_speed\<close> with every operation rounded as the compiled code rounds it when \<^verbatim>\<open>float\<close>
  expressions are evaluated in \<^verbatim>\<open>float\<close>: the two products, their sum, \<^verbatim>\<open>sqrtf\<close> and the two
  quotients are single-precision operations. The quotient is multiplied by the \<^verbatim>\<open>double\<close>
  constant \<^verbatim>\<open>MAX_SPEED\<close>; that product of a \<^verbatim>\<open>float\<close> with 4 is exact in double precision and
  is rounded when it is stored in the \<^verbatim>\<open>float\<close> field.
\<close>

definition limit_speed_binary32 :: "Boid \<Rightarrow> Boid" where
  "limit_speed_binary32 b =
     (let speed = binary32 (sqrt (binary32 (binary32 (vx b * vx b) + binary32 (vy b * vy b))))
      in if speed > MAX_SPEED
         then b\<lparr>vx := binary32 (binary32 (vx b / speed) * MAX_SPEED),
                vy := binary32 (binary32 (vy b / speed) * MAX_SPEED)\<rparr>
         else b)"

text \<open>
  An agent for examples; both components of its velocity are \<^verbatim>\<open>float\<close> values, about
  (2.8458872, -6.2818747).
\<close>

definition clamp_input :: Boid where
  "clamp_input = \<lparr>pos_x = 0, pos_y = 0, vx = 2984129 / 1048576, vy = - (6587023 / 1048576),
     target_x = 0, target_y = 0, index = 0\<rparr>"

section \<open>Verification\<close>

subsection \<open>The scheduler's choice of the next pattern\<close>

lemma draw_cases:
  "r mod 8 + 1 = 1 \<or> r mod 8 + 1 = 2 \<or> r mod 8 + 1 = 3 \<or> r mod 8 + 1 = 4 \<or>
   r mod 8 + 1 = 5 \<or> r mod 8 + 1 = 6 \<or> r mod 8 + 1 = 7 \<or> r mod 8 + (1::nat) = 8"
  by presburger

lemma draw_is_pattern: "mode_of_value (r mod 8 + 1) \<in> pattern_modes"
  using draw_cases [of r] by (auto simp: mode_of_value_def pattern_modes_def)

lemma pattern_modes_not_normal: "m \<in> pattern_modes \<longleftrightarrow> m \<noteq> MODE_NORMAL"
  by (cases m) (simp_all add: pattern_modes_def)

lemma next_mode_loop_sound_aux:
  assumes "next_mode_loop rnd lastm n = Some y"
  shows "fst y \<noteq> lastm \<and> fst y \<in> pattern_modes \<and> n < snd y"
  using assms
proof (rule next_mode_loop.raw_induct [rotated,
    where P = "\<lambda>rnd lastm n y. fst y \<noteq> lastm \<and> fst y \<in> pattern_modes \<and> n < snd y"])
  fix f :: "(nat \<Rightarrow> nat) \<Rightarrow> FlockingMode \<Rightarrow> nat \<Rightarrow> (FlockingMode \<times> nat) option"
  fix rnd lastm n y
  assume IH: "\<And>rnd lastm n y. f rnd lastm n = Some y \<Longrightarrow>
     fst y \<noteq> lastm \<and> fst y \<in> pattern_modes \<and> n < snd y"
  assume step: "(if mode_of_value (rnd n mod 8 + 1) = lastm then f rnd lastm (Suc n)
      else Some (mode_of_value (rnd n mod 8 + 1), Suc n)) = Some y"
  show "fst y \<noteq> lastm \<and> fst y \<in> pattern_modes \<and> n < snd y"
  proof (cases "mode_of_value (rnd n mod 8 + 1) = lastm")
    case True
    with step have "f rnd lastm (Suc n) = Some y" by simp
    from IH [OF this] show ?thesis by simp
  next
    case False
    with step have "y = (mode_of_value (rnd n mod 8 + 1), Suc n)" by simp
    with False draw_is_pattern [of "rnd n"] show ?thesis by simp
  qed
qed

lemma next_mode_loop_sound:
  "next_mode_loop rnd lastm n = Some (m, n') \<Longrightarrow> m \<noteq> lastm \<and> m \<in> pattern_modes \<and> n < n'"
  using next_mode_loop_sound_aux [of rnd lastm n "(m, n')"] by simp

lemma next_mode_loop_returns:
  "mode_of_value (rnd (n + k) mod 8 + 1) \<noteq> lastm \<Longrightarrow> \<exists>m n'. next_mode_loop rnd lastm n = Some (m, n')"
proof (induction k arbitrary: n)
  case 0
  then show ?case by (subst next_mode_loop.simps) simp
next
  case (Suc k)
  then have "\<exists>m n'. next_mode_loop rnd lastm (Suc n) = Some (m, n')" by simp
  then show ?case by (subst next_mode_loop.simps) auto
qed

lemma next_mode_loop_stuck_aux:
  assumes "next_mode_loop rnd lastm n = Some y"
  shows "\<exists>k. mode_of_value (rnd (n + k) mod 8 + 1) \<noteq> lastm"
  using assms
proof (rule next_mode_loop.raw_induct [rotated,
    where P = "\<lambda>rnd lastm n y. \<exists>k. mode_of_value (rnd (n + k) mod 8 + 1) \<noteq> lastm"])
  fix f :: "(nat \<Rightarrow> nat) \<Rightarrow> FlockingMode \<Rightarrow> nat \<Rightarrow> (FlockingMode \<times> nat) option"
  fix rnd lastm n y
  assume IH: "\<And>rnd lastm n y. f rnd lastm n = Some y \<Longrightarrow>
     \<exists>k. mode_of_value (rnd (n + k) mod 8 + 1) \<noteq> lastm"
  assume step: "(if mode_of_value (rnd n mod 8 + 1) = lastm then f rnd lastm (Suc n)
      else Some (mode_of_value (rnd n mod 8 + 1), Suc n)) = Some y"
  show "\<exists>k. mode_of_value (rnd (n + k) mod 8 + 1) \<noteq> lastm"
  proof (cases "mode_of_value (rnd n mod 8 + 1) = lastm")
    case True
    with step have "f rnd lastm (Suc n) = Some y" by simp
    from IH [OF this] obtain k where "mode_of_value (rnd (Suc n + k) mod 8 + 1) \<noteq> lastm" by blast
    then have "mode_of_value (rnd (n + Suc k) mod 8 + 1) \<noteq> lastm" by simp
    then show ?thesis by blast
  next
    case False
    then have "mode_of_value (rnd (n + 0) mod 8 + 1) \<noteq> lastm" by simp
    then show ?thesis by blast
  qed
qed

lemma next_mode_loop_returns_iff:
  "(\<exists>y. next_mode_loop rnd lastm n = Some y) \<longleftrightarrow> (\<exists>k. mode_of_value (rnd (n + k) mod 8 + 1) \<noteq> lastm)"
  using next_mode_loop_stuck_aux next_mode_loop_returns by metis

lemma get_next_pattern_mode_returns_iff:
  "(\<exists>y. get_next_pattern_mode rnd g = Some y) \<longleftrightarrow> differs_later rnd (rand_calls g) (last_pattern_mode g)"
proof -
  have "(\<exists>y. get_next_pattern_mode rnd g = Some y) \<longleftrightarrow>
        (\<exists>y. next_mode_loop rnd (last_pattern_mode g) (rand_calls g) = Some y)"
    by (auto simp: get_next_pattern_mode_def split: option.splits)
  also have "\<dots> \<longleftrightarrow> differs_later rnd (rand_calls g) (last_pattern_mode g)"
    unfolding differs_later_def by (rule next_mode_loop_returns_iff)
  finally show ?thesis .
qed

lemma get_next_pattern_mode_sound:
  assumes "get_next_pattern_mode rnd g = Some (m, g')"
  shows "m \<in> pattern_modes" "m \<noteq> last_pattern_mode g"
    "g' = g\<lparr>last_pattern_mode := m, rand_calls := rand_calls g'\<rparr>" "rand_calls g < rand_calls g'"
    "last_pattern_mode g' = m"
  using assms next_mode_loop_sound [of rnd "last_pattern_mode g" "rand_calls g"]
  by (auto simp: get_next_pattern_mode_def split: option.splits)

lemma differs_later_identity: "differs_later (\<lambda>n. n) n m"
proof -
  have "mode_of_value (n mod 8 + 1) \<noteq> mode_of_value (Suc n mod 8 + 1)"
    using draw_cases [of n] draw_cases [of "Suc n"]
    by (auto simp: mode_of_value_def mod_Suc split: if_splits)
  then have "mode_of_value ((n + 0) mod 8 + 1) \<noteq> m \<or> mode_of_value ((n + 1) mod 8 + 1) \<noteq> m"
    by auto
  then show ?thesis unfolding differs_later_def by blast
qed

lemma get_next_pattern_mode_example:
  "last_pattern_mode g = MODE_LISSAJOUS \<Longrightarrow> rand_calls g = 0 \<Longrightarrow>
   get_next_pattern_mode (\<lambda>n. n) g = Some (MODE_ROSE, g\<lparr>last_pattern_mode := MODE_ROSE, rand_calls := 2\<rparr>)"
  apply (simp add: get_next_pattern_mode_def)
  apply (subst next_mode_loop.simps)
  apply (subst next_mode_loop.simps)
  apply (simp add: mode_of_value_def)
  done

text \<open>
  C10. \<^verbatim>\<open>last_pattern_mode\<close> starts as \<^verbatim>\<open>MODE_LISSAJOUS\<close>. \<^verbatim>\<open>get_next_pattern_mode\<close> returns
  exactly when some later draw of the generator differs from \<^verbatim>\<open>last_pattern_mode\<close>, and what
  it returns is one of the eight pattern modes, different from \<^verbatim>\<open>last_pattern_mode\<close> at entry,
  and stored in \<^verbatim>\<open>last_pattern_mode\<close>; so the first pattern chosen in a run, when no pattern
  was chosen before, is never Lissajous.
\<close>

theorem first_auto_pattern_not_initial:
  "last_pattern_mode initial_globals = MODE_LISSAJOUS \<and>
   ((\<exists>y. get_next_pattern_mode rnd g = Some y) \<longleftrightarrow>
      differs_later rnd (rand_calls g) (last_pattern_mode g)) \<and>
   (\<forall>m g'. get_next_pattern_mode rnd g = Some (m, g') \<longrightarrow>
      m \<in> pattern_modes \<and> m \<noteq> last_pattern_mode g \<and> last_pattern_mode g' = m \<and>
      (last_pattern_mode g = last_pattern_mode initial_globals \<longrightarrow> m \<noteq> MODE_LISSAJOUS))"
proof (intro conjI allI impI)
  show "last_pattern_mode initial_globals = MODE_LISSAJOUS" by (simp add: initial_globals_def)
  show "(\<exists>y. get_next_pattern_mode rnd g = Some y) \<longleftrightarrow>
      differs_later rnd (rand_calls g) (last_pattern_mode g)"
    by (rule get_next_pattern_mode_returns_iff)
next
  fix m g' assume a: "get_next_pattern_mode rnd g = Some (m, g')"
  show "m \<in> pattern_modes" using get_next_pattern_mode_sound(1) [OF a] .
  show "m \<noteq> last_pattern_mode g" using get_next_pattern_mode_sound(2) [OF a] .
  show "last_pattern_mode g' = m" using get_next_pattern_mode_sound(5) [OF a] .
  assume "last_pattern_mode g = last_pattern_mode initial_globals"
  then show "m \<noteq> MODE_LISSAJOUS"
    using get_next_pattern_mode_sound(2) [OF a] by (simp add: initial_globals_def)
qed


theorem first_auto_pattern_not_initial_witness:
  "differs_later (\<lambda>n. n) (rand_calls initial_globals) (last_pattern_mode initial_globals) \<and>
   get_next_pattern_mode (\<lambda>n. n) initial_globals =
     Some (MODE_ROSE, initial_globals\<lparr>last_pattern_mode := MODE_ROSE, rand_calls := 2\<rparr>) \<and>
   MODE_ROSE \<in> pattern_modes \<and> MODE_ROSE \<noteq> last_pattern_mode initial_globals \<and>
   MODE_ROSE \<noteq> MODE_LISSAJOUS"
proof -
  have run: "get_next_pattern_mode (\<lambda>n. n) initial_globals =
     Some (MODE_ROSE, initial_globals\<lparr>last_pattern_mode := MODE_ROSE, rand_calls := 2\<rparr>)"
    by (rule get_next_pattern_mode_example) (simp_all add: initial_globals_def)
  from run first_auto_pattern_not_initial [of "\<lambda>n. n" initial_globals]
  show ?thesis by blast
qed

subsection \<open>Curve library\<close>

text \<open>
  C9, as the claim states it, fails: at \<open>t = 0\<close> in an 800 by 600 viewport the Lissajous curve
  is not at (400, 600).
\<close>

theorem lissajous_origin_counterexample:
  "calculate_lissajous_position 0 800 600 \<noteq> (400, 600)"
  by (simp add: calculate_lissajous_position_def get_scale_factor_def PI_def
      signed_divide_int_def Let_def)

text \<open>
  C9, amended. In an 800 by 600 viewport the scale is 180 and the Lissajous curve is
  \<open>x = 400 + 180 sin 3t\<close>, \<open>y = 300 + 180 sin (2t + \<pi>/2)\<close>; at \<open>t = 0\<close> it is at (400, 480).
\<close>

theorem lissajous_origin:
  "calculate_lissajous_position 0 800 600 = (400, 480) \<and>
   get_scale_factor 800 600 = 180 \<and>
   calculate_lissajous_position t 800 600 =
     (400 + 180 * sin (3 * t), 300 + 180 * sin (2 * t + pi / 2))"
  by (simp add: calculate_lissajous_position_def get_scale_factor_def PI_def
      signed_divide_int_def Let_def)

subsection \<open>The automatic scheduler\<close>

lemma elapsed_seconds_exact:
  "- (2 ^ 31) \<le> t - t0 \<Longrightarrow> t - t0 < 2 ^ 31 \<Longrightarrow> elapsed_seconds t t0 = t - t0"
  unfolding elapsed_seconds_def sint_sbintrunc'
  by (rule signed_take_bit_int_eq_self) simp_all

lemma check_idle:
  assumes "auto_mode g"
    and "(current_mode g = MODE_NORMAL \<and> elapsed_seconds t (last_mode_change g) < BOIDS_TIME) \<or>
         (current_mode g \<noteq> MODE_NORMAL \<and> elapsed_seconds t (last_mode_change g) < PATTERN_TIME)"
  shows "check_auto_mode_timing rnd t g = Some g"
  using assms by (auto simp: check_auto_mode_timing_def Let_def)

lemma check_to_normal:
  assumes "auto_mode g" and "current_mode g \<noteq> MODE_NORMAL"
    and "PATTERN_TIME \<le> elapsed_seconds t (last_mode_change g)"
  shows "check_auto_mode_timing rnd t g =
    Some (g\<lparr>current_mode := MODE_NORMAL, pattern_time := 0, last_mode_change := t\<rparr>)"
  using assms by (simp add: check_auto_mode_timing_def Let_def)

lemma check_to_pattern:
  assumes "auto_mode g" and "current_mode g = MODE_NORMAL"
    and "BOIDS_TIME \<le> elapsed_seconds t (last_mode_change g)"
    and "differs_later rnd (rand_calls g) (last_pattern_mode g)"
  shows "\<exists>m n. check_auto_mode_timing rnd t g =
      Some (g\<lparr>last_pattern_mode := m, rand_calls := n, current_mode := m, pattern_time := 0,
               last_mode_change := t\<rparr>) \<and>
      m \<in> pattern_modes \<and> m \<noteq> last_pattern_mode g"
proof -
  from assms(4) obtain y where y: "get_next_pattern_mode rnd g = Some y"
    using get_next_pattern_mode_returns_iff by blast
  obtain m g' where mg: "y = (m, g')" by (cases y)
  note s = get_next_pattern_mode_sound [OF y [unfolded mg]]
  have "check_auto_mode_timing rnd t g =
      Some (g'\<lparr>current_mode := m, pattern_time := 0, last_mode_change := t\<rparr>)"
    using assms(1-3) y mg by (simp add: check_auto_mode_timing_def Let_def)
  also have "g'\<lparr>current_mode := m, pattern_time := 0, last_mode_change := t\<rparr> =
     g\<lparr>last_pattern_mode := m, rand_calls := rand_calls g', current_mode := m, pattern_time := 0,
               last_mode_change := t\<rparr>"
    by (subst s(3)) simp
  finally show ?thesis using s(1,2) by blast
qed

lemma check_run_append:
  "check_run rnd (ts @ us) g =
     (case check_run rnd ts g of
        None \<Rightarrow> None
      | Some gs \<Rightarrow>
          (case check_run rnd us (if gs = [] then g else last gs) of
             None \<Rightarrow> None
           | Some hs \<Rightarrow> Some (gs @ hs)))"
  by (induction ts arbitrary: g) (auto split: option.splits)

lemma check_run_idle:
  assumes "\<forall>t \<in> set ts. check_auto_mode_timing rnd t g = Some g"
  shows "check_run rnd ts g = Some (replicate (length ts) g)"
  using assms by (induction ts) auto

text \<open>
  C5. In auto mode, a check in Normal mode with at least \<^verbatim>\<open>BOIDS_TIME\<close> = 30 elapsed seconds
  moves to one of the pattern modes (the choice of the pattern returns when the generator
  eventually draws a pattern other than the last one), and a check in a pattern mode with at
  least \<^verbatim>\<open>PATTERN_TIME\<close> = 35 elapsed seconds moves back to Normal; both set the pattern clock
  to 0 and store the time of the check in \<^verbatim>\<open>last_mode_change\<close>. The elapsed seconds are the
  difference of the two times whenever that difference fits an \<^verbatim>\<open>int\<close>. On a simulated clock
  that starts in Normal mode at time 0, with any checks before 30 seconds, a check at 30, any
  checks from 30 to before 65 seconds and a check at 65: the mode is Normal until the check
  at 30, one pattern from then until the check at 65, and Normal after it.
\<close>

theorem auto_dwell_times:
  assumes "auto_mode g"
  shows
   "(current_mode g = MODE_NORMAL \<and> BOIDS_TIME \<le> elapsed_seconds t (last_mode_change g) \<and>
       differs_later rnd (rand_calls g) (last_pattern_mode g) \<longrightarrow>
       (\<exists>g'. check_auto_mode_timing rnd t g = Some g' \<and> current_mode g' \<in> pattern_modes \<and>
          pattern_time g' = 0 \<and> last_mode_change g' = t)) \<and>
    (current_mode g \<noteq> MODE_NORMAL \<and> PATTERN_TIME \<le> elapsed_seconds t (last_mode_change g) \<longrightarrow>
       (\<exists>g'. check_auto_mode_timing rnd t g = Some g' \<and> current_mode g' = MODE_NORMAL \<and>
          pattern_time g' = 0 \<and> last_mode_change g' = t)) \<and>
    (- (2 ^ 31) \<le> t - last_mode_change g \<and> t - last_mode_change g < 2 ^ 31 \<longrightarrow>
       elapsed_seconds t (last_mode_change g) = t - last_mode_change g) \<and>
    (current_mode g = MODE_NORMAL \<and> last_mode_change g = 0 \<and>
       differs_later rnd (rand_calls g) (last_pattern_mode g) \<and>
       (\<forall>u \<in> set ts1. 0 \<le> u \<and> u < 30) \<and> (\<forall>u \<in> set ts2. 30 \<le> u \<and> u < 65) \<longrightarrow>
       (\<exists>gs k. check_run rnd (ts1 @ [30] @ ts2 @ [65]) g = Some gs \<and>
          map current_mode gs =
            replicate (length ts1) MODE_NORMAL @ [k] @ replicate (length ts2) k @ [MODE_NORMAL] \<and>
          k \<in> pattern_modes \<and>
          pattern_time (gs ! length ts1) = 0 \<and> last_mode_change (gs ! length ts1) = 30 \<and>
          pattern_time (last gs) = 0 \<and> last_mode_change (last gs) = 65))"
proof (intro conjI impI)
  assume "current_mode g = MODE_NORMAL \<and> BOIDS_TIME \<le> elapsed_seconds t (last_mode_change g) \<and>
       differs_later rnd (rand_calls g) (last_pattern_mode g)"
  then show "\<exists>g'. check_auto_mode_timing rnd t g = Some g' \<and> current_mode g' \<in> pattern_modes \<and>
          pattern_time g' = 0 \<and> last_mode_change g' = t"
    using check_to_pattern [OF assms, of t rnd] by auto
next
  assume "current_mode g \<noteq> MODE_NORMAL \<and> PATTERN_TIME \<le> elapsed_seconds t (last_mode_change g)"
  then show "\<exists>g'. check_auto_mode_timing rnd t g = Some g' \<and> current_mode g' = MODE_NORMAL \<and>
          pattern_time g' = 0 \<and> last_mode_change g' = t"
    using check_to_normal [OF assms, of t rnd] by simp
next
  assume "- (2 ^ 31) \<le> t - last_mode_change g \<and> t - last_mode_change g < 2 ^ 31"
  then show "elapsed_seconds t (last_mode_change g) = t - last_mode_change g"
    by (simp add: elapsed_seconds_exact)
next
  assume h: "current_mode g = MODE_NORMAL \<and> last_mode_change g = 0 \<and>
       differs_later rnd (rand_calls g) (last_pattern_mode g) \<and>
       (\<forall>u \<in> set ts1. 0 \<le> u \<and> u < 30) \<and> (\<forall>u \<in> set ts2. 30 \<le> u \<and> u < 65)"
  have idle1: "\<forall>u \<in> set ts1. check_auto_mode_timing rnd u g = Some g"
  proof
    fix u assume "u \<in> set ts1"
    with h have "0 \<le> u" "u < 30" by auto
    then have "elapsed_seconds u (last_mode_change g) = u" using h elapsed_seconds_exact [of u 0] by simp
    with \<open>u < 30\<close> h show "check_auto_mode_timing rnd u g = Some g"
      by (intro check_idle [OF assms]) (simp add: BOIDS_TIME_def)
  qed
  have e30: "elapsed_seconds 30 (last_mode_change g) = 30" using h by (simp add: elapsed_seconds_def)
  from check_to_pattern [OF assms, of 30 rnd] h e30
  obtain k n where g1: "check_auto_mode_timing rnd 30 g =
      Some (g\<lparr>last_pattern_mode := k, rand_calls := n, current_mode := k, pattern_time := 0,
               last_mode_change := 30\<rparr>)" and k: "k \<in> pattern_modes"
    by (auto simp: BOIDS_TIME_def)
  define g1 where "g1 = g\<lparr>last_pattern_mode := k, rand_calls := n, current_mode := k,
     pattern_time := 0, last_mode_change := 30\<rparr>"
  have a1: "auto_mode g1" and m1: "current_mode g1 = k" and l1: "last_mode_change g1 = 30"
    and p1: "pattern_time g1 = 0"
    using assms by (simp_all add: g1_def)
  have kn: "k \<noteq> MODE_NORMAL" using k by (auto simp: pattern_modes_def)
  have idle2: "\<forall>u \<in> set ts2. check_auto_mode_timing rnd u g1 = Some g1"
  proof
    fix u assume "u \<in> set ts2"
    with h have "30 \<le> u" "u < 65" by auto
    then have "elapsed_seconds u (last_mode_change g1) = u - 30"
      using l1 elapsed_seconds_exact [of u 30] by simp
    with \<open>u < 65\<close> m1 kn show "check_auto_mode_timing rnd u g1 = Some g1"
      by (intro check_idle [OF a1]) (simp add: PATTERN_TIME_def)
  qed
  have e65: "elapsed_seconds 65 (last_mode_change g1) = 35" using l1 by (simp add: elapsed_seconds_def)
  define g2 where "g2 = g1\<lparr>current_mode := MODE_NORMAL, pattern_time := 0, last_mode_change := 65\<rparr>"
  have c65: "check_auto_mode_timing rnd 65 g1 = Some g2"
    using check_to_normal [OF a1, of 65 rnd] m1 kn e65 by (simp add: PATTERN_TIME_def g2_def)
  let ?gs = "replicate (length ts1) g @ [g1] @ replicate (length ts2) g1 @ [g2]"
  have run: "check_run rnd (ts1 @ [30] @ ts2 @ [65]) g = Some ?gs"
    using check_run_idle [OF idle1] check_run_idle [OF idle2] g1 c65
    by (simp add: check_run_append g1_def [symmetric])
  have modes: "map current_mode ?gs =
      replicate (length ts1) MODE_NORMAL @ [k] @ replicate (length ts2) k @ [MODE_NORMAL]"
    using h m1 by (simp add: g2_def)
  have at: "?gs ! length ts1 = g1" by (simp add: nth_append)
  have la: "last ?gs = g2" by simp
  show "\<exists>gs k. check_run rnd (ts1 @ [30] @ ts2 @ [65]) g = Some gs \<and>
          map current_mode gs =
            replicate (length ts1) MODE_NORMAL @ [k] @ replicate (length ts2) k @ [MODE_NORMAL] \<and>
          k \<in> pattern_modes \<and>
          pattern_time (gs ! length ts1) = 0 \<and> last_mode_change (gs ! length ts1) = 30 \<and>
          pattern_time (last gs) = 0 \<and> last_mode_change (last gs) = 65"
    apply (rule exI [of _ ?gs], rule exI [of _ k])
    apply (intro conjI run modes k)
    apply (simp_all only: at la p1 l1)
    apply (simp_all add: g2_def)
    done
qed

text \<open>The hypotheses of C5 hold for the generator that returns 0, 1, 2, \<dots> from the initial state with auto mode set.\<close>

theorem auto_dwell_times_witness:
  "auto_mode (initial_globals\<lparr>auto_mode := True\<rparr>) \<and>
   current_mode (initial_globals\<lparr>auto_mode := True\<rparr>) = MODE_NORMAL \<and>
   last_mode_change (initial_globals\<lparr>auto_mode := True\<rparr>) = 0 \<and>
   BOIDS_TIME \<le> elapsed_seconds 30 (last_mode_change (initial_globals\<lparr>auto_mode := True\<rparr>)) \<and>
   differs_later (\<lambda>n. n) (rand_calls (initial_globals\<lparr>auto_mode := True\<rparr>))
     (last_pattern_mode (initial_globals\<lparr>auto_mode := True\<rparr>)) \<and>
   list_all (\<lambda>u. 0 \<le> u \<and> u < 30) [0, 29 :: int] \<and>
   list_all (\<lambda>u. 30 \<le> u \<and> u < 65) [30, 64 :: int] \<and>
   (\<exists>g'. check_auto_mode_timing (\<lambda>n. n) 30 (initial_globals\<lparr>auto_mode := True\<rparr>) = Some g' \<and>
      current_mode g' \<in> pattern_modes \<and> pattern_time g' = 0 \<and> last_mode_change g' = 30) \<and>
   (\<exists>gs k. check_run (\<lambda>n. n) ([0, 29] @ [30] @ [30, 64] @ [65]) (initial_globals\<lparr>auto_mode := True\<rparr>)
        = Some gs \<and>
      map current_mode gs = [MODE_NORMAL, MODE_NORMAL, k, k, k, MODE_NORMAL] \<and> k \<in> pattern_modes)"
proof -
  let ?g = "initial_globals\<lparr>auto_mode := True\<rparr>"
  have a: "auto_mode ?g" by simp
  have b: "current_mode ?g = MODE_NORMAL" "last_mode_change ?g = 0"
    by (simp_all add: initial_globals_def)
  have c: "BOIDS_TIME \<le> elapsed_seconds 30 (last_mode_change ?g)"
    by (simp add: initial_globals_def elapsed_seconds_def BOIDS_TIME_def)
  have d: "differs_later (\<lambda>n. n) (rand_calls ?g) (last_pattern_mode ?g)"
    by (rule differs_later_identity)
  have e: "(\<forall>u \<in> set [0, 29 :: int]. 0 \<le> u \<and> u < 30)" "(\<forall>u \<in> set [30, 64 :: int]. 30 \<le> u \<and> u < 65)"
    by simp_all
  note t = auto_dwell_times [OF a, of 30 "\<lambda>n. n" "[0, 29]" "[30, 64]"]
  from t b c d e have 1: "\<exists>g'. check_auto_mode_timing (\<lambda>n. n) 30 ?g = Some g' \<and>
      current_mode g' \<in> pattern_modes \<and> pattern_time g' = 0 \<and> last_mode_change g' = 30"
    by blast
  from t b c d e have "\<exists>gs k. check_run (\<lambda>n. n) ([0, 29] @ [30] @ [30, 64] @ [65]) ?g = Some gs \<and>
          map current_mode gs =
            replicate (length [0, 29 :: int]) MODE_NORMAL @ [k] @ replicate (length [30, 64 :: int]) k @ [MODE_NORMAL] \<and>
          k \<in> pattern_modes \<and>
          pattern_time (gs ! length [0, 29 :: int]) = 0 \<and> last_mode_change (gs ! length [0, 29 :: int]) = 30 \<and>
          pattern_time (last gs) = 0 \<and> last_mode_change (last gs) = 65"
    by blast
  then have 2: "\<exists>gs k. check_run (\<lambda>n. n) ([0, 29] @ [30] @ [30, 64] @ [65]) ?g = Some gs \<and>
      map current_mode gs = [MODE_NORMAL, MODE_NORMAL, k, k, k, MODE_NORMAL] \<and> k \<in> pattern_modes"
    by (auto simp: numeral_2_eq_2)
  have f: "list_all (\<lambda>u. 0 \<le> u \<and> u < 30) [0, 29 :: int]"
    "list_all (\<lambda>u. 30 \<le> u \<and> u < 65) [30, 64 :: int]"
    by simp_all
  from a b c d f 1 2 show ?thesis by blast
qed

text \<open>The same clock, run: the first two automatic choices with that generator.\<close>

lemma check_run_example:
  "map_option (map (\<lambda>g. (current_mode g, pattern_time g, last_mode_change g)))
     (check_run (\<lambda>n. n) [0, 29, 30, 64, 65, 94, 95] (initial_globals\<lparr>auto_mode := True\<rparr>)) =
   Some [(MODE_NORMAL, 0, 0), (MODE_NORMAL, 0, 0), (MODE_ROSE, 0, 30), (MODE_ROSE, 0, 30),
         (MODE_NORMAL, 0, 65), (MODE_NORMAL, 0, 65), (MODE_HYPOCYCLOID, 0, 95)]"
  apply (simp add: check_auto_mode_timing_def initial_globals_def elapsed_seconds_def
      BOIDS_TIME_def PATTERN_TIME_def get_next_pattern_mode_def)
  apply (subst next_mode_loop.simps)
  apply (subst next_mode_loop.simps)
  apply (simp add: mode_of_value_def check_auto_mode_timing_def elapsed_seconds_def
      BOIDS_TIME_def PATTERN_TIME_def get_next_pattern_mode_def)
  apply (subst next_mode_loop.simps)
  apply (simp add: mode_of_value_def)
  done

subsection \<open>Manual toggles\<close>

lemma key_press_toggle:
  "k \<in> set (pattern_keys m) \<Longrightarrow>
   key_press k g = g\<lparr>current_mode := (if current_mode g = m then MODE_NORMAL else m), pattern_time := 0\<rparr>"
  by (cases m) auto

lemma key_press_reset:
  "k \<in> set reset_keys \<Longrightarrow> key_press k g = g\<lparr>current_mode := MODE_NORMAL, pattern_time := 0\<rparr>"
  by (auto simp: reset_keys_def)

lemma pattern_keys_pattern: "k \<in> set (pattern_keys m) \<Longrightarrow> m \<in> pattern_modes"
  by (cases m) (auto simp: pattern_modes_def)

text \<open>
  C7, as the claim states it, fails for a start in the pattern that is toggled: from Lissajous,
  in manual mode, two presses of its key end in Lissajous, not in Normal.
\<close>

theorem manual_toggle_counterexample:
  "\<not> auto_mode (initial_globals\<lparr>current_mode := MODE_LISSAJOUS\<rparr>) \<and>
   current_mode (snd (snd (handle_event (KeyPress XK_l) (handle_event (KeyPress XK_l)
      (800, 600, initial_globals\<lparr>current_mode := MODE_LISSAJOUS\<rparr>))))) \<noteq> MODE_NORMAL"
  by (simp add: initial_globals_def)

text \<open>
  C7, amended. In manual mode a toggle input of pattern \<open>m\<close> sets the mode to Normal when the
  mode is \<open>m\<close> and to \<open>m\<close> from any other mode, Normal or pattern. Two toggle inputs of \<open>m\<close> in
  succession end in Normal from every start other than \<open>m\<close> itself, and in \<open>m\<close> from \<open>m\<close>. The
  reset input sets the mode to Normal. Each of these inputs sets the pattern clock to 0 and
  changes nothing else.
\<close>

theorem manual_toggle:
  assumes "\<not> auto_mode g" and "k1 \<in> set (pattern_keys m)" and "k2 \<in> set (pattern_keys m)"
  shows "m \<in> pattern_modes \<and>
    handle_event (KeyPress k1) (w, h, g) =
      (w, h, g\<lparr>current_mode := (if current_mode g = m then MODE_NORMAL else m), pattern_time := 0\<rparr>) \<and>
    (current_mode g \<noteq> m \<longrightarrow>
       handle_event (KeyPress k2) (handle_event (KeyPress k1) (w, h, g)) =
         (w, h, g\<lparr>current_mode := MODE_NORMAL, pattern_time := 0\<rparr>)) \<and>
    (current_mode g = m \<longrightarrow>
       handle_event (KeyPress k2) (handle_event (KeyPress k1) (w, h, g)) =
         (w, h, g\<lparr>current_mode := m, pattern_time := 0\<rparr>)) \<and>
    (\<forall>r \<in> set reset_keys. handle_event (KeyPress r) (w, h, g) =
         (w, h, g\<lparr>current_mode := MODE_NORMAL, pattern_time := 0\<rparr>))"
proof -
  have m: "m \<noteq> MODE_NORMAL" using assms(2) by (cases m) auto
  show ?thesis
    using assms m
    by (simp add: key_press_toggle [of k1 m] key_press_toggle [of k2 m] key_press_reset
        pattern_keys_pattern [of k1 m])
qed

theorem manual_toggle_witness:
  "\<not> auto_mode initial_globals \<and> XK_l \<in> set (pattern_keys MODE_LISSAJOUS) \<and>
   XK_L \<in> set (pattern_keys MODE_LISSAJOUS) \<and> XK_n \<in> set reset_keys \<and>
   current_mode initial_globals \<noteq> MODE_LISSAJOUS \<and>
   handle_event (KeyPress XK_l) (800, 600, initial_globals) =
     (800, 600, initial_globals\<lparr>current_mode := MODE_LISSAJOUS, pattern_time := 0\<rparr>) \<and>
   handle_event (KeyPress XK_L) (handle_event (KeyPress XK_l) (800, 600, initial_globals)) =
     (800, 600, initial_globals\<lparr>current_mode := MODE_NORMAL, pattern_time := 0\<rparr>) \<and>
   handle_event (KeyPress XK_n) (800, 600, initial_globals) =
     (800, 600, initial_globals\<lparr>current_mode := MODE_NORMAL, pattern_time := 0\<rparr>)"
proof -
  have a: "\<not> auto_mode initial_globals" and b: "current_mode initial_globals \<noteq> MODE_LISSAJOUS"
    by (simp_all add: initial_globals_def)
  have k: "XK_l \<in> set (pattern_keys MODE_LISSAJOUS)" "XK_L \<in> set (pattern_keys MODE_LISSAJOUS)"
    "XK_n \<in> set reset_keys" by (simp_all add: reset_keys_def)
  from manual_toggle [OF a k(1) k(2), of 800 600] a b k show ?thesis by simp
qed

subsection \<open>The speed clamp in exact arithmetic\<close>

lemma limit_speed_unchanged:
  "velocity_norm b \<le> MAX_SPEED \<Longrightarrow> limit_speed b = b"
  by (simp add: limit_speed_def velocity_norm_def Let_def)

lemma limit_speed_scaled:
  assumes "MAX_SPEED < velocity_norm b"
  shows "limit_speed b = b\<lparr>vx := MAX_SPEED / velocity_norm b * vx b,
                            vy := MAX_SPEED / velocity_norm b * vy b\<rparr>"
  using assms by (simp add: limit_speed_def velocity_norm_def Let_def)

lemma velocity_norm_scaled:
  assumes "0 \<le> c"
  shows "velocity_norm (b\<lparr>vx := c * vx b, vy := c * vy b\<rparr>) = c * velocity_norm b"
proof -
  have "(c * vx b) * (c * vx b) + (c * vy b) * (c * vy b) = c\<^sup>2 * (vx b * vx b + vy b * vy b)"
    by (simp add: power2_eq_square algebra_simps)
  then show ?thesis using assms by (simp add: velocity_norm_def real_sqrt_mult)
qed

lemma velocity_norm_limit_speed:
  "velocity_norm (limit_speed b) = min (velocity_norm b) MAX_SPEED"
proof (cases "MAX_SPEED < velocity_norm b")
  case True
  then have pos: "0 < velocity_norm b" by (simp add: MAX_SPEED_def)
  have "0 \<le> MAX_SPEED / velocity_norm b" using pos by (simp add: MAX_SPEED_def)
  from velocity_norm_scaled [OF this, of b]
  have "velocity_norm (limit_speed b) = MAX_SPEED / velocity_norm b * velocity_norm b"
    by (simp only: limit_speed_scaled [OF True])
  then show ?thesis using True pos by simp
next
  case False
  then show ?thesis by (simp add: limit_speed_unchanged)
qed

lemma abs_vx_le_norm: "\<bar>vx b\<bar> \<le> velocity_norm b"
  unfolding velocity_norm_def
  by (rule real_le_rsqrt) (simp add: power2_eq_square)

lemma abs_vy_le_norm: "\<bar>vy b\<bar> \<le> velocity_norm b"
  unfolding velocity_norm_def
  by (rule real_le_rsqrt) (simp add: power2_eq_square)

lemma limit_speed_components:
  "\<bar>vx (limit_speed b)\<bar> \<le> MAX_SPEED" "\<bar>vy (limit_speed b)\<bar> \<le> MAX_SPEED"
  using abs_vx_le_norm [of "limit_speed b"] abs_vy_le_norm [of "limit_speed b"]
    velocity_norm_limit_speed [of b]
  by simp_all

lemma limit_speed_fields [simp]:
  "pos_x (limit_speed b) = pos_x b" "pos_y (limit_speed b) = pos_y b"
  "index (limit_speed b) = index b"
  by (simp_all add: limit_speed_def Let_def)

lemma limit_speed_idem: "limit_speed (limit_speed b) = limit_speed b"
  by (rule limit_speed_unchanged) (simp add: velocity_norm_limit_speed)

subsection \<open>Moving and wrapping\<close>

lemma move_and_wrap_fields [simp]:
  "vx (move_and_wrap w h b) = vx b" "vy (move_and_wrap w h b) = vy b"
  "index (move_and_wrap w h b) = index b"
  by (simp_all add: move_and_wrap_def Let_def)

lemma move_and_wrap_in_viewport:
  assumes "in_viewport w h b" and "\<bar>vx b\<bar> \<le> MAX_SPEED" and "\<bar>vy b\<bar> \<le> MAX_SPEED"
    and "MAX_SPEED \<le> real_of_int w" and "MAX_SPEED \<le> real_of_int h"
  shows "in_viewport w h (move_and_wrap w h b)"
  using assms by (auto simp: in_viewport_def move_and_wrap_def Let_def MAX_SPEED_def)

subsection \<open>What one iteration of the update changes\<close>

lemma update_velocity_same:
  "bs[i := (bs ! i)\<lparr>vx := vx (bs ! i), vy := vy (bs ! i)\<rparr>] = bs"
  by (cases "i < length bs") simp_all

lemma apply_separation_force_shape:
  "\<exists>a b. apply_separation_force bs i weight = bs[i := (bs ! i)\<lparr>vx := a, vy := b\<rparr>]"
proof (cases "fold (separation_step bs i) [0..<NUM_BOIDS] (0, 0, 0)")
  case (fields ax ay c)
  show ?thesis
  proof (cases "c > 0")
    case True
    with fields show ?thesis by (auto simp: apply_separation_force_def)
  next
    case False
    with fields have "apply_separation_force bs i weight = bs"
      by (simp add: apply_separation_force_def)
    then show ?thesis using update_velocity_same [of bs i] by metis
  qed
qed

lemma flock_force_shape:
  "\<exists>a b. flock_force bs i = bs[i := (bs ! i)\<lparr>vx := a, vy := b\<rparr>]"
proof (cases "fold (flock_step bs i) [0..<NUM_BOIDS] (0, 0, 0, 0, 0, 0, 0)")
  case (fields avx avy cx cy ax ay c)
  show ?thesis
  proof (cases "c > 0")
    case True
    with fields show ?thesis by (auto simp: flock_force_def Let_def)
  next
    case False
    with fields have "flock_force bs i = bs" by (simp add: flock_force_def)
    then show ?thesis using update_velocity_same [of bs i] by metis
  qed
qed

lemma shape_twice:
  "(bs[i := (bs ! i)\<lparr>vx := a, vy := b\<rparr>])[i := ((bs[i := (bs ! i)\<lparr>vx := a, vy := b\<rparr>]) ! i)\<lparr>vx := c, vy := d\<rparr>]
     = bs[i := (bs ! i)\<lparr>vx := c, vy := d\<rparr>]"
  by (cases "i < length bs") (simp_all add: list_update_beyond)

lemma steering_distance_positive:
  "0 < sqrt (dx * dx + dy * dy) \<Longrightarrow>
   fdiv dx (sqrt (dx * dx + dy * dy)) = Some (dx / sqrt (dx * dx + dy * dy)) \<and>
   fdiv dy (sqrt (dx * dx + dy * dy)) = Some (dy / sqrt (dx * dx + dy * dy))"
  by (auto simp: fdiv_def)

lemma apply_pattern_force_steer:
  assumes "mode \<noteq> MODE_NORMAL"
    and "pattern_target mode (real_of_int (index (bs ! i)) / real NUM_BOIDS * 10 + ptime) w h
           = Some (tx, ty)"
    and "dx = tx - pos_x (bs ! i)" and "dy = ty - pos_y (bs ! i)"
    and "dst = sqrt (dx * dx + dy * dy)"
  shows "apply_pattern_force mode ptime bs i w h =
     Some (apply_separation_force
       (if dst > 0
        then bs[i := (bs ! i)\<lparr>vx := vx (bs ! i) + dx / dst * PATTERN_FORCE,
                              vy := vy (bs ! i) + dy / dst * PATTERN_FORCE\<rparr>]
        else bs) i PATTERN_SEPARATION_WEIGHT)"
proof (cases "dst > 0")
  case True
  then have "0 < sqrt (dx * dx + dy * dy)" using assms(5) by simp
  note d = steering_distance_positive [OF this]
  show ?thesis
    unfolding apply_pattern_force_def Let_def
    using assms(1) True
    by (simp only: assms(2) [unfolded Let_def] assms(3,4,5) [symmetric] d [folded assms(5)]
        option.case prod.case if_True if_False)
next
  case False
  show ?thesis
    unfolding apply_pattern_force_def Let_def
    using assms(1) False
    by (simp only: assms(2) [unfolded Let_def] assms(3,4,5) [symmetric]
        option.case prod.case if_True if_False)
qed

lemma apply_pattern_force_shape:
  assumes "apply_pattern_force mode ptime bs i w h = Some bs'"
  shows "\<exists>a b. bs' = bs[i := (bs ! i)\<lparr>vx := a, vy := b\<rparr>]"
proof (cases "mode = MODE_NORMAL")
  case True
  with assms have "bs' = bs" by (simp add: apply_pattern_force_def)
  then show ?thesis using update_velocity_same [of bs i] by metis
next
  case False
  let ?t = "real_of_int (index (bs ! i)) / real NUM_BOIDS * 10 + ptime"
  from assms False obtain tx ty where tg: "pattern_target mode ?t w h = Some (tx, ty)"
    unfolding apply_pattern_force_def Let_def by (auto split: option.splits)
  define dx where "dx = tx - pos_x (bs ! i)"
  define dy where "dy = ty - pos_y (bs ! i)"
  define dst where "dst = sqrt (dx * dx + dy * dy)"
  note e = apply_pattern_force_steer [OF False tg dx_def dy_def dst_def]
  show ?thesis
  proof (cases "dst > 0")
    case True
    let ?b1 = "(bs ! i)\<lparr>vx := vx (bs ! i) + dx / dst * PATTERN_FORCE,
                         vy := vy (bs ! i) + dy / dst * PATTERN_FORCE\<rparr>"
    from assms e True
    have "bs' = apply_separation_force (bs[i := ?b1]) i PATTERN_SEPARATION_WEIGHT"
      by simp
    with apply_separation_force_shape [of "bs[i := ?b1]" i PATTERN_SEPARATION_WEIGHT]
    obtain c d where "bs' = (bs[i := ?b1])[i := ((bs[i := ?b1]) ! i)\<lparr>vx := c, vy := d\<rparr>]"
      by auto
    then have "bs' = bs[i := (bs ! i)\<lparr>vx := c, vy := d\<rparr>]"
      by (cases "i < length bs") (simp_all add: list_update_beyond)
    then show ?thesis by blast
  next
    case False
    from assms e False
    have "bs' = apply_separation_force bs i PATTERN_SEPARATION_WEIGHT"
      by simp
    then show ?thesis using apply_separation_force_shape by simp
  qed
qed

lemma update_boid_shape:
  assumes "update_boid mode ptime w h i bs = Some bs'"
  shows "\<exists>a b. bs' = bs[i := move_and_wrap w h (limit_speed ((bs ! i)\<lparr>vx := a, vy := b\<rparr>))]"
proof -
  from assms obtain bs1 where
    f: "(if mode = MODE_NORMAL then Some (flock_force bs i)
         else apply_pattern_force mode ptime bs i w h) = Some bs1"
    and r: "bs' = (bs1[i := limit_speed (bs1 ! i)])
                    [i := move_and_wrap w h ((bs1[i := limit_speed (bs1 ! i)]) ! i)]"
    by (auto simp: update_boid_def Let_def split: option.splits)
  have "\<exists>a b. bs1 = bs[i := (bs ! i)\<lparr>vx := a, vy := b\<rparr>]"
  proof (cases "mode = MODE_NORMAL")
    case True
    with f have "bs1 = flock_force bs i" by simp
    then show ?thesis using flock_force_shape [of bs i] by simp
  next
    case False
    with f have "apply_pattern_force mode ptime bs i w h = Some bs1" by simp
    then show ?thesis by (rule apply_pattern_force_shape)
  qed
  then obtain a b where s: "bs1 = bs[i := (bs ! i)\<lparr>vx := a, vy := b\<rparr>]" by blast
  have "bs' = bs[i := move_and_wrap w h (limit_speed ((bs ! i)\<lparr>vx := a, vy := b\<rparr>))]"
    unfolding r s by (cases "i < length bs") (simp_all add: list_update_beyond)
  then show ?thesis by blast
qed

subsection \<open>No partial operation fails on well-formed states\<close>

lemma scale_factor_positive: "0 < w \<Longrightarrow> 0 < h \<Longrightarrow> 0 < get_scale_factor w h"
  by (simp add: get_scale_factor_def)

lemma pattern_target_total:
  assumes "0 < w" and "0 < h" and "0 \<le> t"
  shows "\<exists>p. pattern_target mode t w h = Some p"
proof -
  have s: "get_scale_factor w h \<noteq> 0" using scale_factor_positive [OF assms(1,2)] by simp
  show ?thesis
    using s assms(3)
    by (cases mode)
      (simp_all add: calculate_hypocycloid_position_def calculate_spirograph_position_def
        calculate_fermat_spiral_position_def fdiv_def fsqrt_def Let_def)
qed

lemma apply_pattern_force_total:
  assumes "0 < w" and "0 < h" and "0 \<le> ptime" and "0 \<le> index (bs ! i)"
  shows "\<exists>bs'. apply_pattern_force mode ptime bs i w h = Some bs'"
proof (cases "mode = MODE_NORMAL")
  case True
  then show ?thesis by (simp add: apply_pattern_force_def)
next
  case False
  have "0 \<le> real_of_int (index (bs ! i)) / real NUM_BOIDS * 10 + ptime"
    using assms(3,4) by simp
  from pattern_target_total [OF assms(1,2) this, of mode]
  obtain tx ty where
    "pattern_target mode (real_of_int (index (bs ! i)) / real NUM_BOIDS * 10 + ptime) w h
       = Some (tx, ty)" by force
  from apply_pattern_force_steer [OF False this refl refl refl] show ?thesis by blast
qed

lemma update_boid_total:
  assumes "0 < w" and "0 < h" and "0 \<le> ptime" and "0 \<le> index (bs ! i)"
  shows "\<exists>bs'. update_boid mode ptime w h i bs = Some bs'"
  using apply_pattern_force_total [OF assms, of mode]
  by (auto simp: update_boid_def Let_def)

lemma update_boid_frame:
  assumes "update_boid mode ptime w h i bs = Some bs'"
  shows "length bs' = length bs" and "map index bs' = map index bs"
    and "\<forall>j. j \<noteq> i \<longrightarrow> bs' ! j = bs ! j"
proof -
  from update_boid_shape [OF assms] obtain a b where
    s: "bs' = bs[i := move_and_wrap w h (limit_speed ((bs ! i)\<lparr>vx := a, vy := b\<rparr>))]" by blast
  show "length bs' = length bs" by (simp add: s)
  show "map index bs' = map index bs"
  proof (cases "i < length bs")
    case True
    then have "(map index bs)[i := index (bs ! i)] = map index bs"
      using list_update_id [of "map index bs" i] by simp
    then show ?thesis by (simp add: s map_update)
  next
    case False
    then show ?thesis by (simp add: s list_update_beyond)
  qed
  show "\<forall>j. j \<noteq> i \<longrightarrow> bs' ! j = bs ! j" by (simp add: s)
qed

lemma update_loop_total:
  assumes "0 < w" and "0 < h" and "0 \<le> ptime"
    and "list_all (\<lambda>b. 0 \<le> index b) bs" and "\<forall>i \<in> set js. i < length bs"
  shows "\<exists>bs'. update_loop mode ptime w h js bs = Some bs' \<and> length bs' = length bs \<and>
           map index bs' = map index bs"
  using assms(4,5)
proof (induction js arbitrary: bs)
  case Nil
  then show ?case by simp
next
  case (Cons i js)
  then have "0 \<le> index (bs ! i)" by (simp add: list_all_length)
  from update_boid_total [OF assms(1-3) this, of mode]
  obtain bs1 where u: "update_boid mode ptime w h i bs = Some bs1" by blast
  note f = update_boid_frame [OF u]
  have "list_all (\<lambda>k. 0 \<le> k) (map index bs1)"
    using Cons.prems(1) by (simp add: f(2) list_all_iff)
  then have a: "list_all (\<lambda>b. 0 \<le> index b) bs1" by (simp add: list_all_iff)
  have b: "\<forall>i \<in> set js. i < length bs1" using Cons.prems(2) f(1) by simp
  from Cons.IH [OF a b] u f show ?case by auto
qed

lemma update_loop_frame:
  assumes "update_loop mode ptime w h js bs = Some bs'"
  shows "length bs' = length bs \<and> map index bs' = map index bs"
  using assms
proof (induction js arbitrary: bs)
  case Nil
  then show ?case by simp
next
  case (Cons i js)
  then obtain bs1 where u: "update_boid mode ptime w h i bs = Some bs1"
    and r: "update_loop mode ptime w h js bs1 = Some bs'"
    by (auto split: option.splits)
  from Cons.IH [OF r] update_boid_frame(1,2) [OF u] show ?case by simp
qed

lemma update_boids_frame:
  assumes "update_boids w h g = Some g'"
  shows "current_mode g' = current_mode g" "auto_mode g' = auto_mode g"
    "last_mode_change g' = last_mode_change g" "last_pattern_mode g' = last_pattern_mode g"
    "rand_calls g' = rand_calls g"
    "pattern_time g' = (if current_mode g \<noteq> MODE_NORMAL then pattern_time g + 1 / 100 else pattern_time g)"
    "length (boids g') = length (boids g)" "map index (boids g') = map index (boids g)"
proof -
  from assms obtain bs where
    l: "update_loop (current_mode g) (pattern_time g) w h [0..<NUM_BOIDS] (boids g) = Some bs"
    and g': "g' = (if current_mode g \<noteq> MODE_NORMAL
                then g\<lparr>boids := bs, pattern_time := pattern_time g + 1 / 100\<rparr>
                else g\<lparr>boids := bs\<rparr>)"
    by (auto simp: update_boids_def split: option.splits)
  from update_loop_frame [OF l] g'
  show "current_mode g' = current_mode g" "auto_mode g' = auto_mode g"
    "last_mode_change g' = last_mode_change g" "last_pattern_mode g' = last_pattern_mode g"
    "rand_calls g' = rand_calls g"
    "pattern_time g' = (if current_mode g \<noteq> MODE_NORMAL then pattern_time g + 1 / 100 else pattern_time g)"
    "length (boids g') = length (boids g)" "map index (boids g') = map index (boids g)"
    by simp_all
qed

lemma update_boids_total:
  assumes "well_formed (w, h, g)"
  shows "\<exists>g'. update_boids w h g = Some g' \<and> well_formed (w, h, g')"
proof -
  from assms have a: "0 < w" "0 < h" "0 \<le> pattern_time g" "length (boids g) = NUM_BOIDS"
    "list_all (\<lambda>b. 0 \<le> index b) (boids g)"
    by (simp_all add: well_formed_def)
  have "\<forall>i \<in> set [0..<NUM_BOIDS]. i < length (boids g)" using a(4) by simp
  from update_loop_total [OF a(1-3) a(5) this, of "current_mode g"]
  obtain bs where l: "update_loop (current_mode g) (pattern_time g) w h [0..<NUM_BOIDS] (boids g) = Some bs"
    by blast
  then obtain g' where u: "update_boids w h g = Some g'" by (simp add: update_boids_def)
  note f = update_boids_frame [OF u]
  have "list_all (\<lambda>k. 0 \<le> k) (map index (boids g'))"
    using a(5) by (simp add: f(8) list_all_iff)
  then have "list_all (\<lambda>b. 0 \<le> index b) (boids g')" by (simp add: list_all_iff)
  then have "well_formed (w, h, g')"
    using a f(6,7) by (simp add: well_formed_def)
  with u show ?thesis by blast
qed

subsection \<open>Frames\<close>

lemma key_press_frame:
  "auto_mode (key_press k g) = auto_mode g" "last_pattern_mode (key_press k g) = last_pattern_mode g"
  "boids (key_press k g) = boids g" "0 \<le> pattern_time g \<Longrightarrow> 0 \<le> pattern_time (key_press k g)"
  by (cases k; simp)+

lemma handle_event_auto:
  assumes "auto_mode g"
  shows "\<exists>w' h'. handle_event e (w, h, g) = (w', h', g)"
  using assms by (cases e) simp_all

lemma handle_key_auto:
  "auto_mode g \<Longrightarrow> is_key_press e \<Longrightarrow> handle_event e (w, h, g) = (w, h, g)"
  by (cases e) simp_all

lemma events_auto:
  assumes "auto_mode g"
  shows "\<exists>w' h'. fold handle_event evs (w, h, g) = (w', h', g)"
proof (induction evs arbitrary: w h)
  case Nil
  then show ?case by simp
next
  case (Cons e evs)
  from handle_event_auto [OF assms, of e w h] obtain w1 h1 where
    "handle_event e (w, h, g) = (w1, h1, g)" by blast
  with Cons [of w1 h1] show ?case by simp
qed

lemma events_drop_keys:
  assumes "auto_mode g"
  shows "fold handle_event (filter (\<lambda>e. \<not> is_key_press e) evs) (w, h, g) =
         fold handle_event evs (w, h, g)"
proof (induction evs arbitrary: w h)
  case Nil
  then show ?case by simp
next
  case (Cons e evs)
  show ?case
  proof (cases "is_key_press e")
    case True
    then show ?thesis using Cons handle_key_auto [OF assms True] by simp
  next
    case False
    from handle_event_auto [OF assms, of e w h] obtain w1 h1 where
      "handle_event e (w, h, g) = (w1, h1, g)" by blast
    with False Cons [of w1 h1] show ?thesis by simp
  qed
qed

lemma frame_drop_keys:
  "auto_mode (snd (snd s)) \<Longrightarrow> frame rnd (drop_keys inp) s = frame rnd inp s"
  by (cases s) (simp add: frame_def drop_keys_def events_drop_keys)

lemma get_next_pattern_mode_fields:
  assumes "get_next_pattern_mode rnd g = Some (m, g')"
  shows "auto_mode g' = auto_mode g" "boids g' = boids g" "pattern_time g' = pattern_time g"
    "current_mode g' = current_mode g" "last_mode_change g' = last_mode_change g"
  using assms by (auto simp: get_next_pattern_mode_def split: option.splits)

lemma check_auto_mode_timing_cases:
  assumes "check_auto_mode_timing rnd t g = Some g'"
  obtains (manual) "\<not> auto_mode g" "g' = g"
  | (to_pattern) m g1 where "auto_mode g" "current_mode g = MODE_NORMAL"
      "get_next_pattern_mode rnd g = Some (m, g1)"
      "g' = g1\<lparr>current_mode := m, pattern_time := 0, last_mode_change := t\<rparr>"
  | (to_normal) "auto_mode g" "current_mode g \<noteq> MODE_NORMAL"
      "g' = g\<lparr>current_mode := MODE_NORMAL, pattern_time := 0, last_mode_change := t\<rparr>"
  | (idle) "auto_mode g" "g' = g"
proof (cases "auto_mode g")
  case False
  with assms have "g' = g" by (simp add: check_auto_mode_timing_def)
  with False show ?thesis by (rule manual)
next
  case a: True
  show ?thesis
  proof (cases "current_mode g = MODE_NORMAL \<and> BOIDS_TIME \<le> elapsed_seconds t (last_mode_change g)")
    case True
    with a assms obtain y where y: "get_next_pattern_mode rnd g = Some y"
      by (cases "get_next_pattern_mode rnd g") (simp_all add: check_auto_mode_timing_def)
    obtain m g1 where yy: "y = (m, g1)" by (cases y)
    from a True assms y yy
    have "g' = g1\<lparr>current_mode := m, pattern_time := 0, last_mode_change := t\<rparr>"
      by (simp add: check_auto_mode_timing_def)
    with a True y yy show ?thesis using to_pattern by blast
  next
    case n: False
    show ?thesis
    proof (cases "current_mode g \<noteq> MODE_NORMAL \<and> PATTERN_TIME \<le> elapsed_seconds t (last_mode_change g)")
      case True
      with a n assms
      have "g' = g\<lparr>current_mode := MODE_NORMAL, pattern_time := 0, last_mode_change := t\<rparr>"
        by (auto simp: check_auto_mode_timing_def Let_def)
      with a True show ?thesis using to_normal by blast
    next
      case False
      with a n assms have "g' = g" by (auto simp: check_auto_mode_timing_def Let_def)
      with a show ?thesis by (rule idle)
    qed
  qed
qed

lemma check_auto_mode_timing_fields:
  assumes "check_auto_mode_timing rnd t g = Some g'"
  shows "auto_mode g' = auto_mode g" "boids g' = boids g"
    "0 \<le> pattern_time g \<Longrightarrow> 0 \<le> pattern_time g'"
proof -
  have "auto_mode g' = auto_mode g \<and> boids g' = boids g \<and>
        (0 \<le> pattern_time g \<longrightarrow> 0 \<le> pattern_time g')"
    using assms
  proof (cases rule: check_auto_mode_timing_cases)
    case (to_pattern m g1)
    then show ?thesis using get_next_pattern_mode_fields [OF to_pattern(3)] by simp
  qed simp_all
  then show "auto_mode g' = auto_mode g" "boids g' = boids g"
    "0 \<le> pattern_time g \<Longrightarrow> 0 \<le> pattern_time g'" by simp_all
qed

lemma check_selects:
  assumes "check_auto_mode_timing rnd t g = Some g'"
  shows "current_mode g = MODE_NORMAL \<and> current_mode g' \<noteq> MODE_NORMAL \<Longrightarrow>
           current_mode g' \<in> pattern_modes \<and> current_mode g' \<noteq> last_pattern_mode g \<and>
           last_pattern_mode g' = current_mode g'"
    and "\<not> (current_mode g = MODE_NORMAL \<and> current_mode g' \<noteq> MODE_NORMAL) \<Longrightarrow>
           last_pattern_mode g' = last_pattern_mode g"
proof -
  have "(current_mode g = MODE_NORMAL \<and> current_mode g' \<noteq> MODE_NORMAL \<longrightarrow>
           current_mode g' \<in> pattern_modes \<and> current_mode g' \<noteq> last_pattern_mode g \<and>
           last_pattern_mode g' = current_mode g') \<and>
        (\<not> (current_mode g = MODE_NORMAL \<and> current_mode g' \<noteq> MODE_NORMAL) \<longrightarrow>
           last_pattern_mode g' = last_pattern_mode g)"
    using assms
  proof (cases rule: check_auto_mode_timing_cases)
    case (to_pattern m g1)
    note s = get_next_pattern_mode_sound [OF to_pattern(3)]
    have "m \<noteq> MODE_NORMAL" using s(1) by (simp add: pattern_modes_not_normal)
    then show ?thesis using to_pattern(2,4) s(1,2,5) by simp
  qed simp_all
  then show "current_mode g = MODE_NORMAL \<and> current_mode g' \<noteq> MODE_NORMAL \<Longrightarrow>
           current_mode g' \<in> pattern_modes \<and> current_mode g' \<noteq> last_pattern_mode g \<and>
           last_pattern_mode g' = current_mode g'"
    and "\<not> (current_mode g = MODE_NORMAL \<and> current_mode g' \<noteq> MODE_NORMAL) \<Longrightarrow>
           last_pattern_mode g' = last_pattern_mode g"
    by blast+
qed

lemma check_total:
  assumes "auto_mode g \<longrightarrow> differs_later rnd (rand_calls g) (last_pattern_mode g)"
  shows "\<exists>g'. check_auto_mode_timing rnd t g = Some g'"
proof (cases "auto_mode g \<and> current_mode g = MODE_NORMAL \<and>
    BOIDS_TIME \<le> elapsed_seconds t (last_mode_change g)")
  case True
  with assms check_to_pattern [of g t rnd] show ?thesis by blast
next
  case False
  then show ?thesis by (auto simp: check_auto_mode_timing_def Let_def)
qed

lemma handle_event_well_formed:
  "valid_event e \<Longrightarrow> well_formed s \<Longrightarrow> well_formed (handle_event e s)"
  by (cases e; cases s) (auto simp: well_formed_def key_press_frame)

lemma events_well_formed:
  "list_all valid_event evs \<Longrightarrow> well_formed s \<Longrightarrow> well_formed (fold handle_event evs s)"
  by (induction evs arbitrary: s) (simp_all add: handle_event_well_formed)

lemma frame_total:
  assumes "well_formed s" and "list_all valid_event (fst inp)" and "productive rnd"
  shows "\<exists>s'. frame rnd inp s = Some s' \<and> well_formed s'"
proof -
  obtain w h g where e: "fold handle_event (fst inp) s = (w, h, g)" by (metis prod_cases3)
  have wf: "well_formed (w, h, g)" using events_well_formed [OF assms(2,1)] e by simp
  have "differs_later rnd (rand_calls g) (last_pattern_mode g)"
    using assms(3) by (simp add: productive_def)
  from check_total [of g rnd "snd inp"] this
  obtain g1 where c: "check_auto_mode_timing rnd (snd inp) g = Some g1" by blast
  have "well_formed (w, h, g1)"
    using wf check_auto_mode_timing_fields [OF c] by (simp add: well_formed_def)
  from update_boids_total [OF this] obtain g2 where
    "update_boids w h g1 = Some g2" "well_formed (w, h, g2)" by blast
  with e c show ?thesis by (simp add: frame_def)
qed

lemma frame_auto:
  assumes "auto_mode g" and "frame rnd inp (w, h, g) = Some s'"
  shows "auto_mode (snd (snd s'))"
    and "snd (snd (fold handle_event (fst inp) (w, h, g))) = g"
    and "current_mode g = MODE_NORMAL \<and> current_mode (snd (snd s')) \<noteq> MODE_NORMAL \<Longrightarrow>
           current_mode (snd (snd s')) \<in> pattern_modes \<and>
           current_mode (snd (snd s')) \<noteq> last_pattern_mode g \<and>
           last_pattern_mode (snd (snd s')) = current_mode (snd (snd s'))"
    and "\<not> (current_mode g = MODE_NORMAL \<and> current_mode (snd (snd s')) \<noteq> MODE_NORMAL) \<Longrightarrow>
           last_pattern_mode (snd (snd s')) = last_pattern_mode g"
proof -
  from events_auto [OF assms(1), of "fst inp" w h] obtain w1 h1 where
    e: "fold handle_event (fst inp) (w, h, g) = (w1, h1, g)" by blast
  from assms(2) e obtain g1 g2 where c: "check_auto_mode_timing rnd (snd inp) g = Some g1"
    and u: "update_boids w1 h1 g1 = Some g2" and s': "s' = (w1, h1, g2)"
    by (auto simp: frame_def split: option.splits)
  note f = update_boids_frame [OF u]
  show "auto_mode (snd (snd s'))"
    using assms(1) check_auto_mode_timing_fields(1) [OF c] f(2) s' by simp
  show "snd (snd (fold handle_event (fst inp) (w, h, g))) = g" using e by simp
  show "current_mode g = MODE_NORMAL \<and> current_mode (snd (snd s')) \<noteq> MODE_NORMAL \<Longrightarrow>
           current_mode (snd (snd s')) \<in> pattern_modes \<and>
           current_mode (snd (snd s')) \<noteq> last_pattern_mode g \<and>
           last_pattern_mode (snd (snd s')) = current_mode (snd (snd s'))"
    using check_selects(1) [OF c] f(1,4) s' by simp
  show "\<not> (current_mode g = MODE_NORMAL \<and> current_mode (snd (snd s')) \<noteq> MODE_NORMAL) \<Longrightarrow>
           last_pattern_mode (snd (snd s')) = last_pattern_mode g"
    using check_selects(2) [OF c] f(1,4) s' by simp
qed


text \<open>
  C6. In auto mode, in every run of the main loop from a well-formed state on valid inputs with
  a productive generator, every pattern that the scheduler selects on a change from Normal is
  one of the eight pattern modes, and it differs from the pattern selected before it (for the
  first one: from the value of \<^verbatim>\<open>last_pattern_mode\<close> at the start); no two selections in
  succession are equal.
\<close>

theorem auto_selected_never_repeats:
  assumes "auto_mode g" and "well_formed (w, h, g)" and "valid_inputs inps" and "productive rnd"
  shows "\<exists>ks. auto_selected rnd inps (w, h, g) = Some ks \<and>
           list_all (\<lambda>k. k \<in> pattern_modes) ks \<and> distinct_adj (last_pattern_mode g # ks)"
  using assms(1-3)
proof (induction inps arbitrary: w h g)
  case Nil
  then show ?case by simp
next
  case (Cons inp inps)
  from Cons.prems(3) have v: "list_all valid_event (fst inp)" "valid_inputs inps"
    by (simp_all add: valid_inputs_def)
  from frame_total [OF Cons.prems(2) v(1) assms(4)] obtain s' where
    fr: "frame rnd inp (w, h, g) = Some s'" and wf: "well_formed s'" by blast
  obtain w1 h1 g1 where s': "s' = (w1, h1, g1)" by (metis prod_cases3)
  note fa = frame_auto [OF Cons.prems(1) fr]
  have a1: "auto_mode g1" using fa(1) s' by simp
  from Cons.IH [OF a1 wf [unfolded s'] v(2)] obtain ks where
    ks: "auto_selected rnd inps (w1, h1, g1) = Some ks"
    "list_all (\<lambda>k. k \<in> pattern_modes) ks" "distinct_adj (last_pattern_mode g1 # ks)" by blast
  show ?case
  proof (cases "current_mode g = MODE_NORMAL \<and> current_mode g1 \<noteq> MODE_NORMAL")
    case True
    with fa(3) s' have k: "current_mode g1 \<in> pattern_modes"
      "current_mode g1 \<noteq> last_pattern_mode g" "last_pattern_mode g1 = current_mode g1"
      by simp_all
    have "auto_selected rnd (inp # inps) (w, h, g) = Some (current_mode g1 # ks)"
      using fr s' ks(1) True Cons.prems(1) fa(2) by simp
    moreover have "distinct_adj (last_pattern_mode g # current_mode g1 # ks)"
      using k(2) ks(3) k(3) by simp
    ultimately show ?thesis using k(1) ks(2) by simp
  next
    case False
    with fa(4) s' have l: "last_pattern_mode g1 = last_pattern_mode g" by simp
    have "auto_selected rnd (inp # inps) (w, h, g) = Some ks"
      using fr s' ks(1) False Cons.prems(1) fa(2) by auto
    then show ?thesis using ks(2,3) l by simp
  qed
qed


lemma well_formed_initial: "well_formed (800, 600, initial_globals\<lparr>auto_mode := True\<rparr>)"
  by (simp add: well_formed_def initial_globals_def list_all_iff)

theorem auto_selected_never_repeats_witness:
  "auto_mode (initial_globals\<lparr>auto_mode := True\<rparr>) \<and>
   well_formed (800, 600, initial_globals\<lparr>auto_mode := True\<rparr>) \<and>
   valid_inputs [([], 0), ([KeyPress XK_l], 30), ([], 65), ([ConfigureNotify 640 480], 95)] \<and>
   productive (\<lambda>n. n) \<and>
   (\<exists>ks. auto_selected (\<lambda>n. n)
            [([], 0), ([KeyPress XK_l], 30), ([], 65), ([ConfigureNotify 640 480], 95)]
            (800, 600, initial_globals\<lparr>auto_mode := True\<rparr>) = Some ks \<and>
         list_all (\<lambda>k. k \<in> pattern_modes) ks \<and>
         distinct_adj (last_pattern_mode (initial_globals\<lparr>auto_mode := True\<rparr>) # ks))"
proof -
  have a: "auto_mode (initial_globals\<lparr>auto_mode := True\<rparr>)" by simp
  have b: "well_formed (800, 600, initial_globals\<lparr>auto_mode := True\<rparr>)"
    by (rule well_formed_initial)
  have c: "valid_inputs [([], 0), ([KeyPress XK_l], 30), ([], 65), ([ConfigureNotify 640 480], 95)]"
    by (simp add: valid_inputs_def)
  have d: "productive (\<lambda>n. n)" by (simp add: productive_def differs_later_identity)
  show ?thesis
    apply (intro conjI)
        apply (rule a)
       apply (rule b)
      apply (rule c)
     apply (rule d)
    apply (rule auto_selected_never_repeats [OF a b c d])
    done
qed

text \<open>
  C8. With auto mode set, two runs of the main loop from the same state, with the same
  generator, whose inputs agree frame by frame once the key presses are dropped, are in the
  same state after every number of frames: the same viewport, mode, pattern clock, scheduler
  variables and agents (or both have failed to return).
\<close>

theorem keys_ignored_in_auto_mode:
  assumes "auto_mode g" and "map drop_keys inps1 = map drop_keys inps2"
  shows "main_loop rnd (take n inps1) (w, h, g) = main_loop rnd (take n inps2) (w, h, g)"
proof -
  have main: "main_loop rnd (map drop_keys inps) s = main_loop rnd inps s"
    if "auto_mode (snd (snd s))" for inps s
    using that
  proof (induction inps arbitrary: s)
    case Nil
    then show ?case by simp
  next
    case (Cons inp inps)
    show ?case
    proof (cases "frame rnd inp s")
      case None
      then show ?thesis using Cons.prems by (simp add: frame_drop_keys)
    next
      case (Some s')
      obtain w0 h0 g0 where s: "s = (w0, h0, g0)" by (metis prod_cases3)
      have "auto_mode (snd (snd s'))"
        using frame_auto(1) [of g0 rnd inp w0 h0 s'] Cons.prems Some s by simp
      from Cons.IH [OF this] Some Cons.prems show ?thesis by (simp add: frame_drop_keys)
    qed
  qed
  have "main_loop rnd (take n inps1) (w, h, g) = main_loop rnd (map drop_keys (take n inps1)) (w, h, g)"
    using main [of "(w, h, g)" "take n inps1"] assms(1) by simp
  also have "map drop_keys (take n inps1) = map drop_keys (take n inps2)"
    using assms(2) by (simp add: take_map [symmetric])
  also have "main_loop rnd (map drop_keys (take n inps2)) (w, h, g) = main_loop rnd (take n inps2) (w, h, g)"
    using main [of "(w, h, g)" "take n inps2"] assms(1) by simp
  finally show ?thesis .
qed

theorem keys_ignored_in_auto_mode_witness:
  "auto_mode (initial_globals\<lparr>auto_mode := True\<rparr>) \<and>
   map drop_keys [([KeyPress XK_l, OtherEvent], 0), ([KeyPress XK_n], 1)] =
   map drop_keys [([OtherEvent, KeyPress XK_r], 0), ([], 1)] \<and>
   main_loop (\<lambda>n. n) (take 2 [([KeyPress XK_l, OtherEvent], 0), ([KeyPress XK_n], 1)])
     (800, 600, initial_globals\<lparr>auto_mode := True\<rparr>) =
   main_loop (\<lambda>n. n) (take 2 [([OtherEvent, KeyPress XK_r], 0), ([], 1)])
     (800, 600, initial_globals\<lparr>auto_mode := True\<rparr>)"
proof -
  have a: "auto_mode (initial_globals\<lparr>auto_mode := True\<rparr>)" by simp
  have b: "map drop_keys [([KeyPress XK_l, OtherEvent], 0), ([KeyPress XK_n], 1)] =
      map drop_keys [([OtherEvent, KeyPress XK_r], 0), ([], 1)]"
    by (simp add: drop_keys_def)
  from keys_ignored_in_auto_mode [OF a b, of "\<lambda>n. n" 2 800 600] a b show ?thesis by blast
qed

subsection \<open>The Normal-mode scan and the three-rule model\<close>

lemma half_radius: "real_of_int (NEIGHBOR_RADIUS sdiv 2) = real_of_int NEIGHBOR_RADIUS / 2"
  by (simp add: NEIGHBOR_RADIUS_def signed_divide_int_def)

lemma distance_eq:
  "distance a b = sqrt ((pos_x b - pos_x a) * (pos_x b - pos_x a) + (pos_y b - pos_y a) * (pos_y b - pos_y a))"
  by (simp add: distance_def power2_eq_square)

lemma flock_step_eq:
  "flock_step bs i j (a1, a2, a3, a4, a5, a6, c) =
     (if j \<noteq> i \<and> 0 < distance (bs ! i) (bs ! j) \<and>
         distance (bs ! i) (bs ! j) < real_of_int NEIGHBOR_RADIUS
      then (a1 + vx (bs ! j), a2 + vy (bs ! j), a3 + pos_x (bs ! j), a4 + pos_y (bs ! j),
            a5 + (if distance (bs ! i) (bs ! j) < real_of_int NEIGHBOR_RADIUS / 2
                  then - (pos_x (bs ! j) - pos_x (bs ! i)) else 0),
            a6 + (if distance (bs ! i) (bs ! j) < real_of_int NEIGHBOR_RADIUS / 2
                  then - (pos_y (bs ! j) - pos_y (bs ! i)) else 0),
            c + 1)
      else (a1, a2, a3, a4, a5, a6, c))"
  unfolding flock_step_def distance_eq half_radius Let_def
  by auto


lemma fold_flock_step:
  "fold (flock_step bs i) js (a1, a2, a3, a4, a5, a6, c) =
     (a1 + (\<Sum>j\<leftarrow>filter (is_neighbor bs i) js. vx (bs ! j)),
      a2 + (\<Sum>j\<leftarrow>filter (is_neighbor bs i) js. vy (bs ! j)),
      a3 + (\<Sum>j\<leftarrow>filter (is_neighbor bs i) js. pos_x (bs ! j)),
      a4 + (\<Sum>j\<leftarrow>filter (is_neighbor bs i) js. pos_y (bs ! j)),
      a5 + (\<Sum>j\<leftarrow>filter (\<lambda>j. distance (bs ! i) (bs ! j) < real_of_int NEIGHBOR_RADIUS / 2)
                   (filter (is_neighbor bs i) js). - (pos_x (bs ! j) - pos_x (bs ! i))),
      a6 + (\<Sum>j\<leftarrow>filter (\<lambda>j. distance (bs ! i) (bs ! j) < real_of_int NEIGHBOR_RADIUS / 2)
                   (filter (is_neighbor bs i) js). - (pos_y (bs ! j) - pos_y (bs ! i))),
      c + int (length (filter (is_neighbor bs i) js)))"
proof (induction js arbitrary: a1 a2 a3 a4 a5 a6 c)
  case Nil
  then show ?case by simp
next
  case (Cons j js)
  show ?case
  proof (cases "is_neighbor bs i j")
    case True
    then have "flock_step bs i j (a1, a2, a3, a4, a5, a6, c) =
       (a1 + vx (bs ! j), a2 + vy (bs ! j), a3 + pos_x (bs ! j), a4 + pos_y (bs ! j),
            a5 + (if distance (bs ! i) (bs ! j) < real_of_int NEIGHBOR_RADIUS / 2
                  then - (pos_x (bs ! j) - pos_x (bs ! i)) else 0),
            a6 + (if distance (bs ! i) (bs ! j) < real_of_int NEIGHBOR_RADIUS / 2
                  then - (pos_y (bs ! j) - pos_y (bs ! i)) else 0),
            c + 1)"
      unfolding flock_step_eq is_neighbor_def by simp
    then show ?thesis using True by (simp add: Cons.IH)
  next
    case False
    then have "flock_step bs i j (a1, a2, a3, a4, a5, a6, c) = (a1, a2, a3, a4, a5, a6, c)"
      unfolding flock_step_eq is_neighbor_def by simp
    then show ?thesis using False by (simp add: Cons.IH)
  qed
qed

lemma neighbors_eq: "neighbors bs i = filter (is_neighbor bs i) [0..<NUM_BOIDS]"
  by (simp add: neighbors_def)

lemma flock_force_eq:
  "flock_force bs i =
     bs[i := (bs ! i)\<lparr>vx := fst (three_rule_velocity bs i), vy := snd (three_rule_velocity bs i)\<rparr>]"
proof (cases "neighbors bs i = []")
  case True
  then have "flock_force bs i = bs"
    unfolding flock_force_def fold_flock_step neighbors_eq [symmetric] by simp
  moreover have "three_rule_velocity bs i = (vx (bs ! i), vy (bs ! i))"
    using True by (simp add: three_rule_velocity_def)
  ultimately show ?thesis by (simp add: update_velocity_same)
next
  case False
  then have pos: "0 < int (length (neighbors bs i))" by simp
  show ?thesis
    unfolding flock_force_def fold_flock_step neighbors_eq [symmetric]
    using False
    by (simp add: three_rule_velocity_def close_neighbors_def Let_def)
qed


lemma neighbors_empty_unchanged: "neighbors bs i = [] \<Longrightarrow> flock_force bs i = bs"
  unfolding flock_force_def fold_flock_step neighbors_eq [symmetric] by simp

text \<open>
  C3. In Normal mode the force phase of \<^verbatim>\<open>update_boids\<close> for agent \<open>i\<close> sets the velocity of
  agent \<open>i\<close> to the velocity of the three-rule model and changes nothing else: over the other
  agents at a distance strictly between 0 and \<^verbatim>\<open>NEIGHBOR_RADIUS\<close> it adds, when there is at
  least one, the difference of their average velocity and the own velocity times
  \<^verbatim>\<open>ALIGNMENT_WEIGHT\<close>, the difference of their average position and the own position times
  \<^verbatim>\<open>COHESION_WEIGHT\<close>, and the sum of the negative offsets of those nearer than half the radius
  times \<^verbatim>\<open>SEPARATION_WEIGHT\<close>; the whole iteration then clamps the speed and moves the agent.
  With no such agent the force phase changes nothing.
\<close>

theorem normal_mode_three_rule:
  "flock_force bs i =
     bs[i := (bs ! i)\<lparr>vx := fst (three_rule_velocity bs i),
                        vy := snd (three_rule_velocity bs i)\<rparr>] \<and>
   update_boid MODE_NORMAL ptime w h i bs =
     Some (bs[i := move_and_wrap w h (limit_speed
        ((bs ! i)\<lparr>vx := fst (three_rule_velocity bs i),
                   vy := snd (three_rule_velocity bs i)\<rparr>))]) \<and>
   (neighbors bs i = [] \<longrightarrow> flock_force bs i = bs)"
proof (intro conjI impI)
  show e: "flock_force bs i =
     bs[i := (bs ! i)\<lparr>vx := fst (three_rule_velocity bs i),
                        vy := snd (three_rule_velocity bs i)\<rparr>]"
    by (rule flock_force_eq)
  show "update_boid MODE_NORMAL ptime w h i bs =
     Some (bs[i := move_and_wrap w h (limit_speed
        ((bs ! i)\<lparr>vx := fst (three_rule_velocity bs i),
                   vy := snd (three_rule_velocity bs i)\<rparr>))])"
    unfolding update_boid_def e
    by (cases "i < length bs") (simp_all add: Let_def list_update_beyond)
  show "flock_force bs i = bs" if "neighbors bs i = []"
    using that by (rule neighbors_empty_unchanged)
qed

lemma sqrt_25: "sqrt 25 = 5" by (rule real_sqrt_unique) simp_all
lemma sqrt_million: "sqrt 1000000 = 1000" by (rule real_sqrt_unique) simp_all

lemma example_flock_nth: "j < NUM_BOIDS \<Longrightarrow> example_flock ! j = example_boid j"
  by (simp add: example_flock_def)

lemma example_neighbors_0: "neighbors example_flock 0 = [1]"
proof -
  have far: "\<not> is_neighbor example_flock 0 j" if "2 \<le> j" "j < NUM_BOIDS" for j
    using that
    by (simp add: is_neighbor_def example_flock_nth distance_def example_boid_def NUM_BOIDS_def
        NEIGHBOR_RADIUS_def sqrt_million)
  have "filter (is_neighbor example_flock 0) [2..<NUM_BOIDS] = []"
    using far by (simp add: filter_empty_conv)
  moreover have "[0..<NUM_BOIDS] = 0 # 1 # [2..<NUM_BOIDS]"
  proof -
    have "[0..<NUM_BOIDS] = 0 # [Suc 0..<NUM_BOIDS]"
      by (rule upt_conv_Cons) (simp add: NUM_BOIDS_def)
    also have "[Suc 0..<NUM_BOIDS] = Suc 0 # [Suc (Suc 0)..<NUM_BOIDS]"
      by (rule upt_conv_Cons) (simp add: NUM_BOIDS_def)
    finally show ?thesis by (simp only: numeral_2_eq_2 One_nat_def)
  qed
  moreover have "is_neighbor example_flock 0 1" "\<not> is_neighbor example_flock 0 0"
    by (simp_all add: is_neighbor_def example_flock_nth distance_def example_boid_def NUM_BOIDS_def
        NEIGHBOR_RADIUS_def sqrt_25)
  ultimately show ?thesis by (simp only: neighbors_def filter.simps if_True if_False)
qed

lemma example_velocity_0: "three_rule_velocity example_flock 0 = (- 32 / 100, - 56 / 100)"
  by (simp add: three_rule_velocity_def example_neighbors_0 close_neighbors_def Let_def
      example_flock_nth distance_def example_boid_def NUM_BOIDS_def NEIGHBOR_RADIUS_def sqrt_25
      ALIGNMENT_WEIGHT_def COHESION_WEIGHT_def SEPARATION_WEIGHT_def)

lemma example_neighbors_2: "neighbors example_flock 2 = []"
proof -
  have "\<not> is_neighbor example_flock 2 j" if "j < NUM_BOIDS" for j
  proof -
    consider "j = 0" | "j = 1" | "2 \<le> j" by linarith
    then show ?thesis
    proof cases
      case 3
      with that show ?thesis
        by (simp add: is_neighbor_def example_flock_nth distance_def example_boid_def NUM_BOIDS_def)
    next
      case 1
      then show ?thesis
        by (simp add: is_neighbor_def example_flock_nth distance_def example_boid_def NUM_BOIDS_def
            NEIGHBOR_RADIUS_def sqrt_million)
    next
      case 2
      have "50 \<le> sqrt ((3 - 1000)\<^sup>2 + (4 - 0)\<^sup>2 :: real)"
        by (rule real_le_rsqrt) simp
      with 2 show ?thesis
        by (simp add: is_neighbor_def example_flock_nth distance_def example_boid_def NUM_BOIDS_def
            NEIGHBOR_RADIUS_def)
    qed
  qed
  then show ?thesis by (simp add: neighbors_def filter_empty_conv)
qed

text \<open>
  The example array: agent 2 has no neighbour and keeps its velocity; agent 0 has the one
  neighbour 1 and its velocity (0, 0) becomes (-0.32, -0.56).
\<close>

theorem normal_mode_three_rule_witness:
  "neighbors example_flock 2 = [] \<and> flock_force example_flock 2 = example_flock \<and>
   neighbors example_flock 0 = [1] \<and>
   flock_force example_flock 0 =
     example_flock[0 := (example_flock ! 0)\<lparr>vx := - 32 / 100, vy := - 56 / 100\<rparr>]"
proof -
  from normal_mode_three_rule [of example_flock 2] example_neighbors_2
  have 1: "flock_force example_flock 2 = example_flock" by blast
  from normal_mode_three_rule [of example_flock 0]
  have "flock_force example_flock 0 =
     example_flock[0 := (example_flock ! 0)\<lparr>vx := fst (three_rule_velocity example_flock 0),
                        vy := snd (three_rule_velocity example_flock 0)\<rparr>]" by blast
  then have 2: "flock_force example_flock 0 =
     example_flock[0 := (example_flock ! 0)\<lparr>vx := - 32 / 100, vy := - 56 / 100\<rparr>]"
    by (simp only: example_velocity_0 fst_conv snd_conv)
  from 1 2 example_neighbors_2 example_neighbors_0 show ?thesis by blast
qed

subsection \<open>Steering towards a pattern\<close>

lemma pattern_target_by_mode:
  assumes "pattern_target mode t w h = Some (tx, ty)"
  shows "(mode = MODE_LISSAJOUS \<longrightarrow> (tx, ty) = calculate_lissajous_position t w h) \<and>
    (mode = MODE_ROSE \<longrightarrow> (tx, ty) = calculate_rose_position t w h) \<and>
    (mode = MODE_HYPOCYCLOID \<longrightarrow> Some (tx, ty) = calculate_hypocycloid_position t w h) \<and>
    (mode = MODE_BUTTERFLY \<longrightarrow> (tx, ty) = calculate_butterfly_position t w h) \<and>
    (mode = MODE_MAURER_ROSE \<longrightarrow> (tx, ty) = calculate_maurer_rose_position t w h) \<and>
    (mode = MODE_SPIROGRAPH \<longrightarrow> Some (tx, ty) = calculate_spirograph_position t w h) \<and>
    (mode = MODE_FERMAT_SPIRAL \<longrightarrow> Some (tx, ty) = calculate_fermat_spiral_position t w h) \<and>
    (mode = MODE_CARDIOID \<longrightarrow> (tx, ty) = calculate_cardioid_position t w h)"
  using assms by (cases mode) simp_all

text \<open>
  C4. In every pattern mode, on a viewport of positive size, with a pattern clock and an
  \<^verbatim>\<open>index\<close> that are not negative: the curve parameter of agent \<open>i\<close> is
  \<open>t = index / NUM_BOIDS * 10 + pattern_time\<close>, and its target \<open>(tx, ty)\<close> is the point at \<open>t\<close> of
  the curve of the mode, each mode having its own curve function; with \<open>d\<close> the distance
  from the agent to the target, \<^verbatim>\<open>apply_pattern_force\<close> adds \<open>(dx / d) * PATTERN_FORCE\<close> and
  \<open>(dy / d) * PATTERN_FORCE\<close> to the velocity when \<open>d > 0\<close> and adds nothing when \<open>d = 0\<close>,
  before the separation pass. It always returns a value: no division by zero and no square
  root of a negative number occurs.
\<close>

theorem pattern_steering:
  assumes "mode \<in> pattern_modes" and "0 < w" and "0 < h" and "0 \<le> ptime"
    and "0 \<le> index (bs ! i)"
  shows "\<exists>t tx ty dx dy d.
      t = real_of_int (index (bs ! i)) / real NUM_BOIDS * 10 + ptime \<and>
      (mode = MODE_LISSAJOUS \<longrightarrow> (tx, ty) = calculate_lissajous_position t w h) \<and>
      (mode = MODE_ROSE \<longrightarrow> (tx, ty) = calculate_rose_position t w h) \<and>
      (mode = MODE_HYPOCYCLOID \<longrightarrow> Some (tx, ty) = calculate_hypocycloid_position t w h) \<and>
      (mode = MODE_BUTTERFLY \<longrightarrow> (tx, ty) = calculate_butterfly_position t w h) \<and>
      (mode = MODE_MAURER_ROSE \<longrightarrow> (tx, ty) = calculate_maurer_rose_position t w h) \<and>
      (mode = MODE_SPIROGRAPH \<longrightarrow> Some (tx, ty) = calculate_spirograph_position t w h) \<and>
      (mode = MODE_FERMAT_SPIRAL \<longrightarrow> Some (tx, ty) = calculate_fermat_spiral_position t w h) \<and>
      (mode = MODE_CARDIOID \<longrightarrow> (tx, ty) = calculate_cardioid_position t w h) \<and>
      dx = tx - pos_x (bs ! i) \<and> dy = ty - pos_y (bs ! i) \<and> d = sqrt (dx * dx + dy * dy) \<and>
      0 \<le> d \<and>
      apply_pattern_force mode ptime bs i w h =
        Some (apply_separation_force
          (if d > 0
           then bs[i := (bs ! i)\<lparr>vx := vx (bs ! i) + dx / d * PATTERN_FORCE,
                                 vy := vy (bs ! i) + dy / d * PATTERN_FORCE\<rparr>]
           else bs) i PATTERN_SEPARATION_WEIGHT) \<and>
      (d = 0 \<longrightarrow> apply_pattern_force mode ptime bs i w h =
         Some (apply_separation_force bs i PATTERN_SEPARATION_WEIGHT))"
proof -
  have n: "mode \<noteq> MODE_NORMAL" using assms(1) by (simp add: pattern_modes_not_normal)
  define t where "t = real_of_int (index (bs ! i)) / real NUM_BOIDS * 10 + ptime"
  have "0 \<le> t" using assms(4,5) by (simp add: t_def)
  from pattern_target_total [OF assms(2,3) this, of mode]
  obtain tx ty where tg: "pattern_target mode t w h = Some (tx, ty)" by force
  note curves = pattern_target_by_mode [OF tg]
  define dx where "dx = tx - pos_x (bs ! i)"
  define dy where "dy = ty - pos_y (bs ! i)"
  define d where "d = sqrt (dx * dx + dy * dy)"
  note e = apply_pattern_force_steer [OF n tg [unfolded t_def] dx_def dy_def d_def]
  have nonneg: "0 \<le> d" by (simp add: d_def)
  have skip: "d = 0 \<longrightarrow> apply_pattern_force mode ptime bs i w h =
         Some (apply_separation_force bs i PATTERN_SEPARATION_WEIGHT)"
    using e by simp
  show ?thesis
    apply (rule exI [of _ t], rule exI [of _ tx], rule exI [of _ ty])
    apply (rule exI [of _ dx], rule exI [of _ dy], rule exI [of _ d])
    apply (intro conjI)
                 apply (rule t_def)
                apply (rule curves [THEN conjunct1])
               apply (rule curves [THEN conjunct2, THEN conjunct1])
              apply (rule curves [THEN conjunct2, THEN conjunct2, THEN conjunct1])
             apply (rule curves [THEN conjunct2, THEN conjunct2, THEN conjunct2, THEN conjunct1])
            apply (rule curves [THEN conjunct2, THEN conjunct2, THEN conjunct2, THEN conjunct2, THEN conjunct1])
           apply (rule curves [THEN conjunct2, THEN conjunct2, THEN conjunct2, THEN conjunct2, THEN conjunct2, THEN conjunct1])
          apply (rule curves [THEN conjunct2, THEN conjunct2, THEN conjunct2, THEN conjunct2, THEN conjunct2, THEN conjunct2, THEN conjunct1])
         apply (rule curves [THEN conjunct2, THEN conjunct2, THEN conjunct2, THEN conjunct2, THEN conjunct2, THEN conjunct2, THEN conjunct2])
        apply (rule dx_def)
       apply (rule dy_def)
      apply (rule d_def)
     apply (rule nonneg)
    apply (rule e)
    apply (rule skip)
    done
qed

lemma separation_step_same_place:
  assumes "pos_x (bs ! j) = pos_x (bs ! i)" and "pos_y (bs ! j) = pos_y (bs ! i)"
  shows "separation_step bs i j acc = acc"
  using assms by (cases acc) (simp add: separation_step_def)

lemma fold_unchanged: "\<forall>j \<in> set js. f j acc = acc \<Longrightarrow> fold f js acc = acc"
  by (induction js) simp_all

lemma separation_same_place:
  assumes "\<forall>j < NUM_BOIDS. pos_x (bs ! j) = pos_x (bs ! i) \<and> pos_y (bs ! j) = pos_y (bs ! i)"
  shows "apply_separation_force bs i weight = bs"
proof -
  have "fold (separation_step bs i) [0..<NUM_BOIDS] (0, 0, 0) = (0, 0, 0)"
    by (rule fold_unchanged) (simp add: separation_step_same_place assms)
  then show ?thesis by (simp add: apply_separation_force_def)
qed

lemma example_crowd_nth:
  "j < NUM_BOIDS \<Longrightarrow> example_crowd ! j =
     \<lparr>pos_x = 400, pos_y = 480, vx = 1, vy = 1, target_x = 0, target_y = 0, index = int j\<rparr>"
  by (simp add: example_crowd_def)

lemma example_crowd_length: "length example_crowd = NUM_BOIDS"
  by (simp add: example_crowd_def)

lemma sqrt_250000: "sqrt 250000 = 500" by (rule real_sqrt_unique) simp_all

lemma lissajous_other_viewport: "calculate_lissajous_position 0 1400 1100 = (700, 880)"
  by (simp add: calculate_lissajous_position_def get_scale_factor_def PI_def
      signed_divide_int_def Let_def)



lemma num_boids_positive: "0 < NUM_BOIDS" by (simp add: NUM_BOIDS_def)
lemma example_crowd_0: "pos_x (example_crowd ! 0) = 400" "pos_y (example_crowd ! 0) = 480"
    "vx (example_crowd ! 0) = 1" "vy (example_crowd ! 0) = 1" "index (example_crowd ! 0) = 0"
    by (simp_all add: example_crowd_nth [OF num_boids_positive])

lemma lissajous_first_viewport: "calculate_lissajous_position 0 800 600 = (400, 480)"
  by (simp add: calculate_lissajous_position_def get_scale_factor_def PI_def
      signed_divide_int_def Let_def)

lemma example_target_800_600: "pattern_target MODE_LISSAJOUS
      (real_of_int (index (example_crowd ! 0)) / real NUM_BOIDS * 10 + 0) 800 600 = Some (400, 480)"
    by (simp add: example_crowd_0 lissajous_first_viewport)
lemma example_target_1400_1100: "pattern_target MODE_LISSAJOUS
      (real_of_int (index (example_crowd ! 0)) / real NUM_BOIDS * 10 + 0) 1400 1100 = Some (700, 880)"
    by (simp add: example_crowd_0 lissajous_other_viewport)


lemma lissajous_is_pattern: "MODE_LISSAJOUS \<in> pattern_modes" by (simp add: pattern_modes_def)
lemma example_crowd_0_index: "0 \<le> index (example_crowd ! 0)" by (simp add: example_crowd_0)

lemma example_crowd_same_place: "\<forall>j < NUM_BOIDS. pos_x (example_crowd ! j) = pos_x (example_crowd ! 0) \<and>
       pos_y (example_crowd ! j) = pos_y (example_crowd ! 0)"
    by (simp add: example_crowd_nth num_boids_positive)

lemma example_steering_at_target: "apply_pattern_force MODE_LISSAJOUS 0 example_crowd 0 800 600 = Some example_crowd"
proof -
  have n: "MODE_LISSAJOUS \<noteq> MODE_NORMAL" by simp
  have "apply_pattern_force MODE_LISSAJOUS 0 example_crowd 0 800 600 =
     Some (apply_separation_force
       (if sqrt ((400 - pos_x (example_crowd ! 0)) * (400 - pos_x (example_crowd ! 0)) +
                 (480 - pos_y (example_crowd ! 0)) * (480 - pos_y (example_crowd ! 0))) > 0
        then example_crowd[0 := (example_crowd ! 0)\<lparr>vx := vx (example_crowd ! 0) +
               (400 - pos_x (example_crowd ! 0)) /
                 sqrt ((400 - pos_x (example_crowd ! 0)) * (400 - pos_x (example_crowd ! 0)) +
                 (480 - pos_y (example_crowd ! 0)) * (480 - pos_y (example_crowd ! 0))) * PATTERN_FORCE,
             vy := vy (example_crowd ! 0) +
               (480 - pos_y (example_crowd ! 0)) /
                 sqrt ((400 - pos_x (example_crowd ! 0)) * (400 - pos_x (example_crowd ! 0)) +
                 (480 - pos_y (example_crowd ! 0)) * (480 - pos_y (example_crowd ! 0))) * PATTERN_FORCE\<rparr>]
        else example_crowd) 0 PATTERN_SEPARATION_WEIGHT)"
    by (rule apply_pattern_force_steer [OF n example_target_800_600 refl refl refl])
  also have "\<dots> = Some (apply_separation_force example_crowd 0 PATTERN_SEPARATION_WEIGHT)"
    by (simp add: example_crowd_0)
  also have "\<dots> = Some example_crowd"
    by (simp only: separation_same_place [OF example_crowd_same_place])
  finally show ?thesis .
qed


lemma example_steered_boid: "(example_crowd ! 0)\<lparr>
               vx := vx (example_crowd ! 0) + 300 / 500 * PATTERN_FORCE,
               vy := vy (example_crowd ! 0) + 400 / 500 * PATTERN_FORCE\<rparr> =
      (example_crowd ! 0)\<lparr>vx := 112 / 100, vy := 116 / 100\<rparr>"
  by (simp add: example_crowd_0 PATTERN_FORCE_def)


lemma example_steered_same_place: "\<forall>j < NUM_BOIDS.
     pos_x ((example_crowd[0 := (example_crowd ! 0)\<lparr>vx := 112 / 100, vy := 116 / 100\<rparr>]) ! j) =
     pos_x ((example_crowd[0 := (example_crowd ! 0)\<lparr>vx := 112 / 100, vy := 116 / 100\<rparr>]) ! 0) \<and>
     pos_y ((example_crowd[0 := (example_crowd ! 0)\<lparr>vx := 112 / 100, vy := 116 / 100\<rparr>]) ! j) =
     pos_y ((example_crowd[0 := (example_crowd ! 0)\<lparr>vx := 112 / 100, vy := 116 / 100\<rparr>]) ! 0)"
proof (intro allI impI)
  fix j assume j: "j < NUM_BOIDS"
  let ?bs = "example_crowd[0 := (example_crowd ! 0)\<lparr>vx := 112 / 100, vy := 116 / 100\<rparr>]"
  have l: "0 < length example_crowd" by (simp add: example_crowd_length num_boids_positive)
  have a: "pos_x (?bs ! 0) = 400" "pos_y (?bs ! 0) = 480" using l by (simp_all add: example_crowd_0)
  have b: "pos_x (?bs ! j) = 400 \<and> pos_y (?bs ! j) = 480"
  proof (cases "j = 0")
    case True
    then show ?thesis using a by simp
  next
    case False
    then have "?bs ! j = example_crowd ! j" by simp
    then show ?thesis using j by (simp add: example_crowd_nth)
  qed
  from a b show "pos_x (?bs ! j) = pos_x (?bs ! 0) \<and> pos_y (?bs ! j) = pos_y (?bs ! 0)" by simp
qed


lemma example_steering_off_target: "apply_pattern_force MODE_LISSAJOUS 0 example_crowd 0 1400 1100 =
     Some (example_crowd[0 := (example_crowd ! 0)\<lparr>vx := 112 / 100, vy := 116 / 100\<rparr>])"
proof -
  let ?bs = "example_crowd[0 := (example_crowd ! 0)\<lparr>vx := 112 / 100, vy := 116 / 100\<rparr>]"
  have n: "MODE_LISSAJOUS \<noteq> MODE_NORMAL" by simp
  have dx: "(300 :: real) = 700 - pos_x (example_crowd ! 0)"
    and dy: "(400 :: real) = 880 - pos_y (example_crowd ! 0)"
    by (simp_all add: example_crowd_0)
  have d: "(500 :: real) = sqrt (300 * 300 + 400 * 400)"
    by (simp add: sqrt_250000)
  have pos: "(500 :: real) > 0" by simp
  have "apply_pattern_force MODE_LISSAJOUS 0 example_crowd 0 1400 1100 =
     Some (apply_separation_force
       (if (500 :: real) > 0
        then example_crowd[0 := (example_crowd ! 0)\<lparr>
               vx := vx (example_crowd ! 0) + 300 / 500 * PATTERN_FORCE,
               vy := vy (example_crowd ! 0) + 400 / 500 * PATTERN_FORCE\<rparr>]
        else example_crowd) 0 PATTERN_SEPARATION_WEIGHT)"
    by (rule apply_pattern_force_steer [OF n example_target_1400_1100 dx dy d])
  also have "\<dots> = Some (apply_separation_force ?bs 0 PATTERN_SEPARATION_WEIGHT)"
    by (simp only: pos if_True example_steered_boid)
  also have "\<dots> = Some ?bs"
    by (simp only: separation_same_place [OF example_steered_same_place])
  finally show ?thesis .
qed


lemma fifty: "50 < NUM_BOIDS" by (simp add: NUM_BOIDS_def)

lemma example_crowd_50:
  "pos_x (example_crowd ! 50) = 400" "pos_y (example_crowd ! 50) = 480"
  "vx (example_crowd ! 50) = 1" "vy (example_crowd ! 50) = 1" "index (example_crowd ! 50) = 50"
  by (simp_all add: example_crowd_nth [OF fifty])

lemma example_parameter_50:
  "real_of_int (index (example_crowd ! 50)) / real NUM_BOIDS * 10 + (pi / 2 - 1) = pi / 2"
  by (simp add: example_crowd_50 NUM_BOIDS_def)

lemma sin_three_halves: "sin (3 * pi / 2) = - 1"
  using sin_3over2_pi by simp

lemma lissajous_quarter: "calculate_lissajous_position (pi / 2) 1820 1000 = (610, 200)"
  by (simp add: calculate_lissajous_position_def get_scale_factor_def PI_def
      signed_divide_int_def Let_def sin_three_halves)

lemma rose_quarter: "calculate_rose_position (pi / 2) 1820 1000 = (910, 200)"
  by (simp add: calculate_rose_position_def get_scale_factor_def
      signed_divide_int_def Let_def sin_three_halves)

lemma sqrt_122500: "sqrt 122500 = 350" by (rule real_sqrt_unique) simp_all

lemma example_target_quarter: "pattern_target MODE_LISSAJOUS
      (real_of_int (index (example_crowd ! 50)) / real NUM_BOIDS * 10 + (pi / 2 - 1)) 1820 1000
      = Some (610, 200)"
  by (simp only: example_parameter_50 pattern_target.simps lissajous_quarter)

lemma example_steered_boid_50: "(example_crowd ! 50)\<lparr>
               vx := vx (example_crowd ! 50) + 210 / 350 * PATTERN_FORCE,
               vy := vy (example_crowd ! 50) + (- 280) / 350 * PATTERN_FORCE\<rparr> =
      (example_crowd ! 50)\<lparr>vx := 112 / 100, vy := 84 / 100\<rparr>"
  by (simp add: example_crowd_50 PATTERN_FORCE_def)

lemma example_steered_same_place_50: "\<forall>j < NUM_BOIDS.
     pos_x ((example_crowd[50 := (example_crowd ! 50)\<lparr>vx := 112 / 100, vy := 84 / 100\<rparr>]) ! j) =
     pos_x ((example_crowd[50 := (example_crowd ! 50)\<lparr>vx := 112 / 100, vy := 84 / 100\<rparr>]) ! 50) \<and>
     pos_y ((example_crowd[50 := (example_crowd ! 50)\<lparr>vx := 112 / 100, vy := 84 / 100\<rparr>]) ! j) =
     pos_y ((example_crowd[50 := (example_crowd ! 50)\<lparr>vx := 112 / 100, vy := 84 / 100\<rparr>]) ! 50)"
proof (intro allI impI)
  fix j assume j: "j < NUM_BOIDS"
  let ?bs = "example_crowd[50 := (example_crowd ! 50)\<lparr>vx := 112 / 100, vy := 84 / 100\<rparr>]"
  have l: "50 < length example_crowd" by (simp add: example_crowd_length fifty)
  have a: "pos_x (?bs ! 50) = 400" "pos_y (?bs ! 50) = 480" using l by (simp_all add: example_crowd_50)
  have b: "pos_x (?bs ! j) = 400 \<and> pos_y (?bs ! j) = 480"
  proof (cases "j = 50")
    case True
    then show ?thesis using a by simp
  next
    case False
    then have "?bs ! j = example_crowd ! j" by simp
    then show ?thesis using j by (simp add: example_crowd_nth)
  qed
  from a b show "pos_x (?bs ! j) = pos_x (?bs ! 50) \<and> pos_y (?bs ! j) = pos_y (?bs ! 50)" by simp
qed

lemma example_steering_quarter:
  "apply_pattern_force MODE_LISSAJOUS (pi / 2 - 1) example_crowd 50 1820 1000 =
     Some (example_crowd[50 := (example_crowd ! 50)\<lparr>vx := 112 / 100, vy := 84 / 100\<rparr>])"
proof -
  let ?bs = "example_crowd[50 := (example_crowd ! 50)\<lparr>vx := 112 / 100, vy := 84 / 100\<rparr>]"
  have n: "MODE_LISSAJOUS \<noteq> MODE_NORMAL" by simp
  have dx: "(210 :: real) = 610 - pos_x (example_crowd ! 50)"
    and dy: "(- 280 :: real) = 200 - pos_y (example_crowd ! 50)"
    by (simp_all add: example_crowd_50)
  have d: "(350 :: real) = sqrt (210 * 210 + (- 280) * (- 280))"
    by (simp add: sqrt_122500)
  have pos: "(350 :: real) > 0" by simp
  have "apply_pattern_force MODE_LISSAJOUS (pi / 2 - 1) example_crowd 50 1820 1000 =
     Some (apply_separation_force
       (if (350 :: real) > 0
        then example_crowd[50 := (example_crowd ! 50)\<lparr>
               vx := vx (example_crowd ! 50) + 210 / 350 * PATTERN_FORCE,
               vy := vy (example_crowd ! 50) + (- 280) / 350 * PATTERN_FORCE\<rparr>]
        else example_crowd) 50 PATTERN_SEPARATION_WEIGHT)"
    by (rule apply_pattern_force_steer [OF n example_target_quarter dx dy d])
  also have "\<dots> = Some (apply_separation_force ?bs 50 PATTERN_SEPARATION_WEIGHT)"
    by (simp only: pos if_True example_steered_boid_50)
  also have "\<dots> = Some ?bs"
    by (simp only: separation_same_place [OF example_steered_same_place_50])
  finally show ?thesis .
qed

lemma rose_is_pattern: "MODE_ROSE \<in> pattern_modes" by (simp add: pattern_modes_def)
lemma example_crowd_50_index: "0 \<le> index (example_crowd ! 50)" by (simp add: example_crowd_50)
lemma example_clock_quarter: "0 \<le> pi / 2 - 1" using pi_ge_two by simp

text \<open>
  Agent 0 of the crowd at (400, 480), at \<open>t = 0\<close>: in an 800 by 600 viewport it is at its
  Lissajous target and nothing is added; in a 1400 by 1100 viewport the target (700, 880) is
  500 away and the velocity (1, 1) becomes (1.12, 1.16). Agent 50, with the pattern clock at
  \<open>pi / 2 - 1\<close>, has \<open>t = 50 / 500 * 10 + pi / 2 - 1 = pi / 2\<close>: in a 1820 by 1000 viewport its
  Lissajous target is (610, 200), 350 away, and the velocity (1, 1) becomes (1.12, 0.84); the
  rose curve at the same \<open>t\<close> is at (910, 200).
\<close>

theorem pattern_steering_witness:
  "MODE_LISSAJOUS \<in> pattern_modes \<and> (0 :: int) < 800 \<and> (0 :: int) < 600 \<and> (0 :: real) \<le> 0 \<and>
   0 \<le> index (example_crowd ! 0) \<and>
   (\<exists>t tx ty dx dy d.
      t = real_of_int (index (example_crowd ! 0)) / real NUM_BOIDS * 10 + 0 \<and>
      (MODE_LISSAJOUS = MODE_LISSAJOUS \<longrightarrow> (tx, ty) = calculate_lissajous_position t 800 600) \<and>
      (MODE_LISSAJOUS = MODE_ROSE \<longrightarrow> (tx, ty) = calculate_rose_position t 800 600) \<and>
      (MODE_LISSAJOUS = MODE_HYPOCYCLOID \<longrightarrow> Some (tx, ty) = calculate_hypocycloid_position t 800 600) \<and>
      (MODE_LISSAJOUS = MODE_BUTTERFLY \<longrightarrow> (tx, ty) = calculate_butterfly_position t 800 600) \<and>
      (MODE_LISSAJOUS = MODE_MAURER_ROSE \<longrightarrow> (tx, ty) = calculate_maurer_rose_position t 800 600) \<and>
      (MODE_LISSAJOUS = MODE_SPIROGRAPH \<longrightarrow> Some (tx, ty) = calculate_spirograph_position t 800 600) \<and>
      (MODE_LISSAJOUS = MODE_FERMAT_SPIRAL \<longrightarrow> Some (tx, ty) = calculate_fermat_spiral_position t 800 600) \<and>
      (MODE_LISSAJOUS = MODE_CARDIOID \<longrightarrow> (tx, ty) = calculate_cardioid_position t 800 600) \<and>
      dx = tx - pos_x (example_crowd ! 0) \<and> dy = ty - pos_y (example_crowd ! 0) \<and>
      d = sqrt (dx * dx + dy * dy) \<and> 0 \<le> d \<and>
      apply_pattern_force MODE_LISSAJOUS 0 example_crowd 0 800 600 =
        Some (apply_separation_force
          (if d > 0
           then example_crowd[0 := (example_crowd ! 0)\<lparr>vx := vx (example_crowd ! 0) + dx / d * PATTERN_FORCE,
                                 vy := vy (example_crowd ! 0) + dy / d * PATTERN_FORCE\<rparr>]
           else example_crowd) 0 PATTERN_SEPARATION_WEIGHT) \<and>
      (d = 0 \<longrightarrow> apply_pattern_force MODE_LISSAJOUS 0 example_crowd 0 800 600 =
         Some (apply_separation_force example_crowd 0 PATTERN_SEPARATION_WEIGHT))) \<and>
   calculate_lissajous_position
     (real_of_int (index (example_crowd ! 0)) / real NUM_BOIDS * 10 + 0) 800 600 = (400, 480) \<and>
   apply_pattern_force MODE_LISSAJOUS 0 example_crowd 0 800 600 = Some example_crowd \<and>
   calculate_lissajous_position
     (real_of_int (index (example_crowd ! 0)) / real NUM_BOIDS * 10 + 0) 1400 1100 = (700, 880) \<and>
   apply_pattern_force MODE_LISSAJOUS 0 example_crowd 0 1400 1100 =
     Some (example_crowd[0 := (example_crowd ! 0)\<lparr>vx := 112 / 100, vy := 116 / 100\<rparr>]) \<and>
   (0 :: int) < 1820 \<and> (0 :: int) < 1000 \<and> 0 \<le> pi / 2 - 1 \<and> 0 \<le> index (example_crowd ! 50) \<and>
   (\<exists>t tx ty dx dy d.
      t = real_of_int (index (example_crowd ! 50)) / real NUM_BOIDS * 10 + (pi / 2 - 1) \<and>
      (MODE_LISSAJOUS = MODE_LISSAJOUS \<longrightarrow> (tx, ty) = calculate_lissajous_position t 1820 1000) \<and>
      (MODE_LISSAJOUS = MODE_ROSE \<longrightarrow> (tx, ty) = calculate_rose_position t 1820 1000) \<and>
      (MODE_LISSAJOUS = MODE_HYPOCYCLOID \<longrightarrow> Some (tx, ty) = calculate_hypocycloid_position t 1820 1000) \<and>
      (MODE_LISSAJOUS = MODE_BUTTERFLY \<longrightarrow> (tx, ty) = calculate_butterfly_position t 1820 1000) \<and>
      (MODE_LISSAJOUS = MODE_MAURER_ROSE \<longrightarrow> (tx, ty) = calculate_maurer_rose_position t 1820 1000) \<and>
      (MODE_LISSAJOUS = MODE_SPIROGRAPH \<longrightarrow> Some (tx, ty) = calculate_spirograph_position t 1820 1000) \<and>
      (MODE_LISSAJOUS = MODE_FERMAT_SPIRAL \<longrightarrow> Some (tx, ty) = calculate_fermat_spiral_position t 1820 1000) \<and>
      (MODE_LISSAJOUS = MODE_CARDIOID \<longrightarrow> (tx, ty) = calculate_cardioid_position t 1820 1000) \<and>
      dx = tx - pos_x (example_crowd ! 50) \<and> dy = ty - pos_y (example_crowd ! 50) \<and>
      d = sqrt (dx * dx + dy * dy) \<and> 0 \<le> d \<and>
      apply_pattern_force MODE_LISSAJOUS (pi / 2 - 1) example_crowd 50 1820 1000 =
        Some (apply_separation_force
          (if d > 0
           then example_crowd[50 := (example_crowd ! 50)\<lparr>vx := vx (example_crowd ! 50) + dx / d * PATTERN_FORCE,
                                 vy := vy (example_crowd ! 50) + dy / d * PATTERN_FORCE\<rparr>]
           else example_crowd) 50 PATTERN_SEPARATION_WEIGHT) \<and>
      (d = 0 \<longrightarrow> apply_pattern_force MODE_LISSAJOUS (pi / 2 - 1) example_crowd 50 1820 1000 =
         Some (apply_separation_force example_crowd 50 PATTERN_SEPARATION_WEIGHT))) \<and>
   real_of_int (index (example_crowd ! 50)) / real NUM_BOIDS * 10 + (pi / 2 - 1) = pi / 2 \<and>
   calculate_lissajous_position (pi / 2) 1820 1000 = (610, 200) \<and>
   calculate_rose_position (pi / 2) 1820 1000 = (910, 200) \<and>
   apply_pattern_force MODE_LISSAJOUS (pi / 2 - 1) example_crowd 50 1820 1000 =
     Some (example_crowd[50 := (example_crowd ! 50)\<lparr>vx := 112 / 100, vy := 84 / 100\<rparr>])"
proof -
  have w: "(0::int) < 800" and h: "(0::int) < 600" and t: "(0::real) \<le> 0" by simp_all
  have w': "(0::int) < 1820" and h': "(0::int) < 1000" by simp_all
  have first: "calculate_lissajous_position
     (real_of_int (index (example_crowd ! 0)) / real NUM_BOIDS * 10 + 0) 800 600 = (400, 480)"
    by (simp add: example_crowd_0 lissajous_first_viewport)
  have other: "calculate_lissajous_position
     (real_of_int (index (example_crowd ! 0)) / real NUM_BOIDS * 10 + 0) 1400 1100 = (700, 880)"
    by (simp add: example_crowd_0 lissajous_other_viewport)
  show ?thesis
    apply (intro conjI)
                     apply (rule lissajous_is_pattern)
                    apply (rule w)
                   apply (rule h)
                  apply (rule t)
                 apply (rule example_crowd_0_index)
                apply (rule pattern_steering [OF lissajous_is_pattern w h t example_crowd_0_index])
               apply (rule first)
              apply (rule example_steering_at_target)
             apply (rule other)
            apply (rule example_steering_off_target)
           apply (rule w')
          apply (rule h')
         apply (rule example_clock_quarter)
        apply (rule example_crowd_50_index)
       apply (rule pattern_steering [OF lissajous_is_pattern w' h' example_clock_quarter example_crowd_50_index])
      apply (rule example_parameter_50)
     apply (rule lissajous_quarter)
    apply (rule rose_quarter)
    apply (rule example_steering_quarter)
    done
qed

subsection \<open>The toroidal wrap\<close>

lemma in_viewport_velocity [simp]:
  "in_viewport w h (b\<lparr>vx := a, vy := c\<rparr>) = in_viewport w h b"
  by (simp add: in_viewport_def)

lemma in_viewport_limit_speed [simp]: "in_viewport w h (limit_speed b) = in_viewport w h b"
  by (simp add: in_viewport_def)

lemma update_boid_in_viewport:
  assumes "update_boid mode ptime w h i bs = Some bs'"
    and "list_all (in_viewport w h) bs"
    and "MAX_SPEED \<le> real_of_int w" and "MAX_SPEED \<le> real_of_int h"
  shows "list_all (in_viewport w h) bs'"
proof (cases "i < length bs")
  case False
  from update_boid_shape [OF assms(1)] False have "bs' = bs"
    by (auto simp: list_update_beyond)
  with assms(2) show ?thesis by simp
next
  case True
  from update_boid_shape [OF assms(1)] obtain a b where
    s: "bs' = bs[i := move_and_wrap w h (limit_speed ((bs ! i)\<lparr>vx := a, vy := b\<rparr>))]" by blast
  let ?c = "limit_speed ((bs ! i)\<lparr>vx := a, vy := b\<rparr>)"
  have "in_viewport w h (bs ! i)" using assms(2) True by (simp add: list_all_length)
  then have "in_viewport w h ?c" by simp
  from move_and_wrap_in_viewport [OF this limit_speed_components assms(3,4)]
  have n: "in_viewport w h (move_and_wrap w h ?c)" .
  show ?thesis
    unfolding s list_all_length
  proof (intro allI impI)
    fix j assume "j < length (bs[i := move_and_wrap w h ?c])"
    then have j: "j < length bs" by simp
    show "in_viewport w h (bs[i := move_and_wrap w h ?c] ! j)"
    proof (cases "j = i")
      case True
      with j n show ?thesis by simp
    next
      case False
      with j assms(2) show ?thesis by (simp add: list_all_length)
    qed
  qed
qed

lemma update_loop_in_viewport:
  assumes "update_loop mode ptime w h js bs = Some bs'"
    and "list_all (in_viewport w h) bs"
    and "MAX_SPEED \<le> real_of_int w" and "MAX_SPEED \<le> real_of_int h"
  shows "list_all (in_viewport w h) bs'"
  using assms(1,2)
proof (induction js arbitrary: bs)
  case Nil
  then show ?case by simp
next
  case (Cons i js)
  then obtain bs1 where u: "update_boid mode ptime w h i bs = Some bs1"
    and r: "update_loop mode ptime w h js bs1 = Some bs'"
    by (auto split: option.splits)
  from update_boid_in_viewport [OF u Cons.prems(2) assms(3,4)]
  have "list_all (in_viewport w h) bs1" .
  from Cons.IH [OF r this] show ?case .
qed

lemma update_boids_in_viewport:
  assumes "update_boids w h g = Some g'"
    and "list_all (in_viewport w h) (boids g)"
    and "MAX_SPEED \<le> real_of_int w" and "MAX_SPEED \<le> real_of_int h"
  shows "list_all (in_viewport w h) (boids g')"
proof -
  from assms(1) obtain bs where
    l: "update_loop (current_mode g) (pattern_time g) w h [0..<NUM_BOIDS] (boids g) = Some bs"
    and g': "boids g' = bs"
    by (auto simp: update_boids_def split: option.splits if_splits)
  from update_loop_in_viewport [OF l assms(2,3,4)] g' show ?thesis by simp
qed

lemma sqrt_3600: "sqrt 3600 = 60" by (rule real_sqrt_unique) simp_all
lemma sqrt_16: "sqrt 16 = 4" by (rule real_sqrt_unique) simp_all

lemma narrow_nth:
  "j < NUM_BOIDS \<Longrightarrow> boids narrow_globals ! j = narrow_boid j"
  by (simp add: narrow_globals_def)

lemma narrow_length: "length (boids narrow_globals) = NUM_BOIDS"
  by (simp add: narrow_globals_def)

lemma narrow_distance:
  "distance (narrow_boid i) (narrow_boid j) = (if (i = 499) = (j = 499) then 0 else 60)"
  by (simp add: distance_def narrow_boid_def sqrt_3600)

lemma narrow_no_neighbors:
  assumes "i < NUM_BOIDS"
  shows "neighbors (boids narrow_globals) i = []"
proof -
  have "\<not> is_neighbor (boids narrow_globals) i j" if "j < NUM_BOIDS" for j
    using that assms
    by (simp add: is_neighbor_def narrow_nth narrow_distance NEIGHBOR_RADIUS_def)
  then show ?thesis by (simp add: neighbors_def filter_empty_conv)
qed

lemma narrow_velocity_norm:
  "velocity_norm (narrow_boid j) = (if j = 499 then 4 else 0)"
  by (simp add: velocity_norm_def narrow_boid_def sqrt_16)

lemma update_boid_normal:
  "update_boid MODE_NORMAL ptime w h i bs =
     Some (((flock_force bs i)[i := limit_speed (flock_force bs i ! i)])
       [i := move_and_wrap w h (((flock_force bs i)[i := limit_speed (flock_force bs i ! i)]) ! i)])"
  by (simp add: update_boid_def Let_def)

lemma narrow_rest:
  assumes "i < 499"
  shows "update_boid MODE_NORMAL ptime 3 100 i (boids narrow_globals) = Some (boids narrow_globals)"
proof -
  have i: "i < NUM_BOIDS" using assms by (simp add: NUM_BOIDS_def)
  have f: "flock_force (boids narrow_globals) i = boids narrow_globals"
    by (rule neighbors_empty_unchanged [OF narrow_no_neighbors [OF i]])
  have l: "limit_speed (narrow_boid i) = narrow_boid i"
    by (rule limit_speed_unchanged) (simp add: narrow_velocity_norm MAX_SPEED_def)
  have m: "move_and_wrap 3 100 (narrow_boid i) = narrow_boid i"
    using assms by (simp add: move_and_wrap_def narrow_boid_def Let_def)
  have n: "boids narrow_globals ! i = narrow_boid i" by (rule narrow_nth [OF i])
  have u: "(boids narrow_globals)[i := narrow_boid i] = boids narrow_globals"
    using list_update_id [of "boids narrow_globals" i] by (simp only: n)
  show ?thesis
    by (simp only: update_boid_normal f n l u m)
qed

lemma narrow_last:
  "update_boid MODE_NORMAL ptime 3 100 499 (boids narrow_globals) =
     Some ((boids narrow_globals)[499 := (narrow_boid 499)\<lparr>pos_x := 7 / 2\<rparr>])"
proof -
  have i: "499 < NUM_BOIDS" by (simp add: NUM_BOIDS_def)
  have f: "flock_force (boids narrow_globals) 499 = boids narrow_globals"
    by (rule neighbors_empty_unchanged [OF narrow_no_neighbors [OF i]])
  have l: "limit_speed (narrow_boid 499) = narrow_boid 499"
    by (rule limit_speed_unchanged) (simp add: narrow_velocity_norm MAX_SPEED_def)
  have m: "move_and_wrap 3 100 (narrow_boid 499) = (narrow_boid 499)\<lparr>pos_x := 7 / 2\<rparr>"
    by (simp add: move_and_wrap_def narrow_boid_def Let_def)
  have n: "boids narrow_globals ! 499 = narrow_boid 499" by (rule narrow_nth [OF i])
  have u: "(boids narrow_globals)[499 := narrow_boid 499] = boids narrow_globals"
    using list_update_id [of "boids narrow_globals" 499] by (simp only: n)
  show ?thesis
    by (simp only: update_boid_normal f n l u m)
qed

lemma update_loop_unchanged:
  "\<forall>i \<in> set js. update_boid mode ptime w h i bs = Some bs \<Longrightarrow>
   update_loop mode ptime w h js bs = Some bs"
  by (induction js) simp_all

lemma update_loop_append:
  "update_loop mode ptime w h (js @ ks) bs =
     (case update_loop mode ptime w h js bs of
        None \<Rightarrow> None
      | Some bs' \<Rightarrow> update_loop mode ptime w h ks bs')"
  by (induction js arbitrary: bs) (simp_all split: option.splits)

lemma all_indices: "[0..<NUM_BOIDS] = [0..<499] @ [499]"
proof -
  have "[0..<Suc 499] = [0..<499] @ [499]" by (rule upt_Suc_append) simp
  moreover have "NUM_BOIDS = Suc 499" by (simp add: NUM_BOIDS_def)
  ultimately show ?thesis by (simp only:)
qed

lemma narrow_tick:
  "update_boids 3 100 narrow_globals =
     Some (narrow_globals\<lparr>boids := (boids narrow_globals)[499 := (narrow_boid 499)\<lparr>pos_x := 7 / 2\<rparr>]\<rparr>)"
proof -
  have m: "current_mode narrow_globals = MODE_NORMAL"
    by (simp add: narrow_globals_def initial_globals_def)
  have "update_loop MODE_NORMAL (pattern_time narrow_globals) 3 100 [0..<499] (boids narrow_globals)
      = Some (boids narrow_globals)"
    by (rule update_loop_unchanged) (simp add: narrow_rest)
  then have "update_loop MODE_NORMAL (pattern_time narrow_globals) 3 100 [0..<NUM_BOIDS]
      (boids narrow_globals) =
      Some ((boids narrow_globals)[499 := (narrow_boid 499)\<lparr>pos_x := 7 / 2\<rparr>])"
    unfolding all_indices update_loop_append by (simp add: narrow_last)
  then show ?thesis unfolding update_boids_def m by simp
qed


text \<open>
  C2, as the claim states it, fails in a viewport narrower than \<^verbatim>\<open>MAX_SPEED\<close>. In the viewport
  3 wide and 100 high all agents of the example are inside the viewport and no speed exceeds
  \<^verbatim>\<open>MAX_SPEED\<close>; one tick of \<^verbatim>\<open>update_boids\<close> moves the last agent from \<open>x = 2.5\<close> to \<open>6.5\<close>, one
  subtraction of the width gives \<open>3.5\<close>, and the agent is outside the viewport.
\<close>

theorem positions_stay_in_viewport_counterexample:
  "length (boids narrow_globals) = NUM_BOIDS \<and>
   list_all (in_viewport 3 100) (boids narrow_globals) \<and>
   list_all (\<lambda>b. velocity_norm b \<le> MAX_SPEED) (boids narrow_globals) \<and>
   (\<exists>g'. update_boids 3 100 narrow_globals = Some g' \<and>
      pos_x (boids g' ! 499) = 7 / 2 \<and> \<not> in_viewport 3 100 (boids g' ! 499))"
proof -
  have a: "list_all (in_viewport 3 100) (boids narrow_globals)"
    unfolding list_all_length narrow_length
    by (simp add: narrow_nth in_viewport_def narrow_boid_def)
  have b: "list_all (\<lambda>b. velocity_norm b \<le> MAX_SPEED) (boids narrow_globals)"
    unfolding list_all_length narrow_length
    by (simp add: narrow_nth narrow_velocity_norm MAX_SPEED_def)
  let ?g = "narrow_globals\<lparr>boids := (boids narrow_globals)[499 := (narrow_boid 499)\<lparr>pos_x := 7 / 2\<rparr>]\<rparr>"
  have c: "boids ?g ! 499 = (narrow_boid 499)\<lparr>pos_x := 7 / 2\<rparr>"
    by (simp add: narrow_length NUM_BOIDS_def)
  have d: "pos_x (boids ?g ! 499) = 7 / 2" "\<not> in_viewport 3 100 (boids ?g ! 499)"
    unfolding c by (simp_all add: in_viewport_def)
  show ?thesis
    apply (intro conjI)
       apply (rule narrow_length)
      apply (rule a)
     apply (rule b)
    apply (rule exI [of _ ?g])
    apply (intro conjI)
      apply (rule narrow_tick)
     apply (rule d(1))
    apply (rule d(2))
    done
qed

text \<open>
  C2, amended. In a viewport wider and higher than \<^verbatim>\<open>MAX_SPEED\<close>, from a well-formed state with
  every agent inside the viewport, a tick of \<^verbatim>\<open>update_boids\<close> returns a well-formed state with
  every agent inside the viewport, in every mode; and the single wrap of a position that is
  inside the viewport and moves by at most \<^verbatim>\<open>MAX_SPEED\<close> in each coordinate is inside the
  viewport.
\<close>

theorem positions_stay_in_viewport:
  assumes "well_formed (w, h, g)" and "list_all (in_viewport w h) (boids g)"
    and "MAX_SPEED < real_of_int w" and "MAX_SPEED < real_of_int h"
  shows "(\<exists>g'. update_boids w h g = Some g' \<and> list_all (in_viewport w h) (boids g') \<and>
            well_formed (w, h, g')) \<and>
         (\<forall>b. in_viewport w h b \<and> \<bar>vx b\<bar> \<le> MAX_SPEED \<and> \<bar>vy b\<bar> \<le> MAX_SPEED \<longrightarrow>
            in_viewport w h (move_and_wrap w h b))"
proof
  from update_boids_total [OF assms(1)] obtain g' where
    u: "update_boids w h g = Some g'" and wf: "well_formed (w, h, g')" by blast
  from update_boids_in_viewport [OF u assms(2)] assms(3,4)
  have "list_all (in_viewport w h) (boids g')" by simp
  with u wf show "\<exists>g'. update_boids w h g = Some g' \<and> list_all (in_viewport w h) (boids g') \<and>
            well_formed (w, h, g')" by blast
  show "\<forall>b. in_viewport w h b \<and> \<bar>vx b\<bar> \<le> MAX_SPEED \<and> \<bar>vy b\<bar> \<le> MAX_SPEED \<longrightarrow>
            in_viewport w h (move_and_wrap w h b)"
    using move_and_wrap_in_viewport [of w h] assms(3,4) by simp
qed

lemma crowd_well_formed: "well_formed (800, 600, initial_globals\<lparr>boids := example_crowd\<rparr>)"
  unfolding well_formed_def prod.case list_all_length
  by (simp add: initial_globals_def example_crowd_length example_crowd_nth)

lemma crowd_in_viewport:
  "list_all (in_viewport 800 600) (boids (initial_globals\<lparr>boids := example_crowd\<rparr>))"
  unfolding list_all_length
  by (simp add: example_crowd_length example_crowd_nth in_viewport_def)

theorem positions_stay_in_viewport_witness:
  "well_formed (800, 600, initial_globals\<lparr>boids := example_crowd\<rparr>) \<and>
   list_all (in_viewport 800 600) (boids (initial_globals\<lparr>boids := example_crowd\<rparr>)) \<and>
   MAX_SPEED < real_of_int 800 \<and> MAX_SPEED < real_of_int 600 \<and>
   (\<exists>g'. update_boids 800 600 (initial_globals\<lparr>boids := example_crowd\<rparr>) = Some g' \<and>
      list_all (in_viewport 800 600) (boids g') \<and> well_formed (800, 600, g'))"
proof -
  have w: "MAX_SPEED < real_of_int 800" and h: "MAX_SPEED < real_of_int 600"
    by (simp_all add: MAX_SPEED_def)
  note t = positions_stay_in_viewport [OF crowd_well_formed crowd_in_viewport w h]
  show ?thesis
    apply (intro conjI)
        apply (rule crowd_well_formed)
       apply (rule crowd_in_viewport)
      apply (rule w)
     apply (rule h)
    apply (rule conjunct1 [OF t])
    done
qed

subsection \<open>Speeds after a tick, in exact arithmetic\<close>

text \<open>
  With exact arithmetic the clamp scales the velocity by a factor in (0, 1], and after a tick
  of \<^verbatim>\<open>update_boids\<close> no agent is faster than \<^verbatim>\<open>MAX_SPEED\<close>, in every mode. These facts are about
  the real-number embedding only: the rounding of single-precision arithmetic is not part of it.
\<close>

lemma limit_speed_direction:
  "\<exists>c. 0 < c \<and> c \<le> 1 \<and> vx (limit_speed b) = c * vx b \<and> vy (limit_speed b) = c * vy b"
proof (cases "MAX_SPEED < velocity_norm b")
  case True
  then have "0 < MAX_SPEED / velocity_norm b" "MAX_SPEED / velocity_norm b \<le> 1"
    by (simp_all add: MAX_SPEED_def)
  then show ?thesis using limit_speed_scaled [OF True] by (intro exI [of _ "MAX_SPEED / velocity_norm b"]) simp
next
  case False
  then show ?thesis using limit_speed_unchanged [of b] by (intro exI [of _ 1]) simp
qed

lemma velocity_norm_move_and_wrap [simp]:
  "velocity_norm (move_and_wrap w h b) = velocity_norm b"
  by (simp add: velocity_norm_def)

lemma update_boid_speed:
  assumes "update_boid mode ptime w h i bs = Some bs'" and "i < length bs"
  shows "velocity_norm (bs' ! i) \<le> MAX_SPEED"
proof -
  from update_boid_shape [OF assms(1)] obtain a b where
    s: "bs' = bs[i := move_and_wrap w h (limit_speed ((bs ! i)\<lparr>vx := a, vy := b\<rparr>))]" by blast
  show ?thesis using assms(2) by (simp add: s velocity_norm_limit_speed)
qed

lemma update_loop_speed:
  assumes "update_loop mode ptime w h js bs = Some bs'"
    and "\<forall>j \<in> set js. j < length bs"
    and "\<forall>j \<in> S. j < length bs \<and> velocity_norm (bs ! j) \<le> MAX_SPEED"
  shows "\<forall>j \<in> S \<union> set js. velocity_norm (bs' ! j) \<le> MAX_SPEED"
  using assms
proof (induction js arbitrary: bs S)
  case Nil
  then show ?case by simp
next
  case (Cons i js)
  then obtain bs1 where u: "update_boid mode ptime w h i bs = Some bs1"
    and r: "update_loop mode ptime w h js bs1 = Some bs'"
    by (auto split: option.splits)
  note f = update_boid_frame [OF u]
  have i: "i < length bs" using Cons.prems(2) by simp
  have a: "\<forall>j \<in> set js. j < length bs1" using Cons.prems(2) f(1) by simp
  have b: "\<forall>j \<in> insert i S. j < length bs1 \<and> velocity_norm (bs1 ! j) \<le> MAX_SPEED"
  proof
    fix j assume j: "j \<in> insert i S"
    show "j < length bs1 \<and> velocity_norm (bs1 ! j) \<le> MAX_SPEED"
    proof (cases "j = i")
      case True
      then show ?thesis using update_boid_speed [OF u i] i f(1) by simp
    next
      case False
      with j have "j \<in> S" by simp
      with Cons.prems(3) False f(1,3) show ?thesis by simp
    qed
  qed
  from Cons.IH [OF r a b] show ?case by simp
qed

lemma update_boids_speed:
  assumes "update_boids w h g = Some g'" and "length (boids g) = NUM_BOIDS"
  shows "list_all (\<lambda>b. velocity_norm b \<le> MAX_SPEED) (boids g')"
proof -
  from assms(1) obtain bs where
    l: "update_loop (current_mode g) (pattern_time g) w h [0..<NUM_BOIDS] (boids g) = Some bs"
    and g': "boids g' = bs"
    by (auto simp: update_boids_def split: option.splits if_splits)
  have "\<forall>j \<in> {} \<union> set [0..<NUM_BOIDS]. velocity_norm (bs ! j) \<le> MAX_SPEED"
    by (rule update_loop_speed [OF l]) (simp_all add: assms(2))
  moreover have "length bs = NUM_BOIDS" using update_loop_frame [OF l] assms(2) by simp
  ultimately show ?thesis by (simp add: g' list_all_length)
qed

subsection \<open>The speed clamp in single precision: evaluation\<close>

text \<open>
  A value of \<^const>\<open>binary32\<close> is found from the binade of the argument and the nearest integer
  to the scaled argument; for a square root, from the squares of the two rounding boundaries.
\<close>

lemma binary32_exponent:
  assumes "2 ^ 23 \<le> \<bar>x\<bar> * 2 ^ k" and "\<bar>x\<bar> * 2 ^ k < 2 ^ 24" and "k \<le> 149"
  shows "max \<lfloor>log 2 \<bar>x\<bar>\<rfloor> (- 126) - 23 = - int k"
proof -
  have pos: "0 < \<bar>x\<bar>"
  proof (rule ccontr)
    assume "\<not> 0 < \<bar>x\<bar>"
    then have "\<bar>x\<bar> = 0" by simp
    with assms(1) show False by simp
  qed
  have k: "(2 :: real) powr real k = 2 ^ k" by (simp add: powr_realpow)
  have "(2 :: real) powr real_of_int (23 - int k) = 2 powr 23 / 2 powr real k"
    by (simp add: powr_diff)
  then have p: "(2 :: real) powr real_of_int (23 - int k) = 2 ^ 23 / 2 ^ k"
    by (simp only: k) simp
  have "(2 :: real) powr real_of_int (23 - int k + 1) = 2 powr 24 / 2 powr real k"
    by (simp add: powr_diff)
  then have q: "(2 :: real) powr real_of_int (23 - int k + 1) = 2 ^ 24 / 2 ^ k"
    by (simp only: k) simp
  have "(2 :: real) powr real_of_int (23 - int k) \<le> \<bar>x\<bar>"
    unfolding p using assms(1) by (simp add: field_simps)
  moreover have "\<bar>x\<bar> < (2 :: real) powr real_of_int (23 - int k + 1)"
    unfolding q using assms(2) by (simp add: field_simps)
  ultimately have "\<lfloor>log 2 \<bar>x\<bar>\<rfloor> = 23 - int k"
    using floor_log_eq_powr_iff [of "\<bar>x\<bar>" 2 "23 - int k"] pos by simp
  then show ?thesis using assms(3) by simp
qed

lemma binary32_value:
  assumes "2 ^ 23 \<le> \<bar>x\<bar> * 2 ^ k" and "\<bar>x\<bar> * 2 ^ k < 2 ^ 24" and "k \<le> 149"
    and "round_even (x * 2 ^ k) = m"
  shows "binary32 x = of_int m / 2 ^ k"
proof -
  have nz: "x \<noteq> 0" using assms(1) by auto
  have "(2 :: real) powr real_of_int (- int k) = 1 / 2 powr real k"
    by (simp add: powr_minus_divide)
  then have p: "(2 :: real) powr real_of_int (- int k) = 1 / 2 ^ k"
    by (simp add: powr_realpow)
  show ?thesis
    unfolding binary32_def Let_def binary32_exponent [OF assms(1,2,3)] p
    using nz assms(4) by simp
qed

lemma round_even_near:
  assumes "\<bar>y - of_int m\<bar> < 1 / 2"
  shows "round_even y = m"
proof -
  have "\<lfloor>y\<rfloor> = m \<or> \<lfloor>y\<rfloor> = m - 1" using assms by linarith
  then show ?thesis
  proof
    assume f: "\<lfloor>y\<rfloor> = m"
    then have "y - of_int m < 1 / 2" using assms by linarith
    then show ?thesis by (simp add: round_even_def f)
  next
    assume f: "\<lfloor>y\<rfloor> = m - 1"
    then have "y < of_int m" by linarith
    then have "1 / 2 < y - of_int (m - 1)" using assms by simp
    then show ?thesis by (simp add: round_even_def f)
  qed
qed


lemma binary32_sqrt_value:
  assumes "0 \<le> c" and "8388608 < m" and "m < 16777216" and "k \<le> 149"
    and "((2 * of_int m - 1) / 2 ^ (k + 1)) ^ 2 < c" and "c < ((2 * of_int m + 1) / 2 ^ (k + 1)) ^ 2"
  shows "binary32 (sqrt c) = of_int m / 2 ^ k"
proof -
  have lo: "(2 * of_int m - 1) / 2 ^ (k + 1) < sqrt c"
    by (rule real_less_rsqrt) (rule assms(5))
  have "0 \<le> (2 * real_of_int m + 1) / 2 ^ (k + 1)" using assms(2) by simp
  then have hi: "sqrt c < (2 * of_int m + 1) / 2 ^ (k + 1)"
    using assms(1,6) by (intro real_less_lsqrt) simp_all
  have s: "0 \<le> sqrt c" using assms(1) by simp
  have lo': "of_int m - 1 / 2 < sqrt c * 2 ^ k" using lo by (simp add: field_simps)
  have hi': "sqrt c * 2 ^ k < of_int m + 1 / 2" using hi by (simp add: field_simps)
  have m1: "8388609 \<le> real_of_int m" using assms(2) by linarith
  have m2: "real_of_int m \<le> 16777215" using assms(3) by linarith
  have a: "\<bar>sqrt c\<bar> * 2 ^ k = sqrt c * 2 ^ k" using s by simp
  show ?thesis
  proof (rule binary32_value [OF _ _ assms(4)])
    show "round_even (sqrt c * 2 ^ k) = m"
      by (rule round_even_near) (use lo' hi' in linarith)
    show "2 ^ 23 \<le> \<bar>sqrt c\<bar> * 2 ^ k" unfolding a using lo' m1 by simp
    show "\<bar>sqrt c\<bar> * 2 ^ k < 2 ^ 24" unfolding a using hi' m2 by simp
  qed
qed

text \<open>The single-precision clamp, step by step, on the example agent and on its result.\<close>

lemma limit_speed_binary32_clamped:
  assumes "binary32 (vx b * vx b) = a" and "binary32 (vy b * vy b) = a'"
    and "binary32 (a + a') = c" and "binary32 (sqrt c) = s" and "MAX_SPEED < s"
    and "binary32 (vx b / s) = qx" and "binary32 (vy b / s) = qy"
    and "binary32 (qx * MAX_SPEED) = rx" and "binary32 (qy * MAX_SPEED) = ry"
  shows "limit_speed_binary32 b = b\<lparr>vx := rx, vy := ry\<rparr>"
  using assms by (simp add: limit_speed_binary32_def)

lemma first_velocity: "vx clamp_input = 2984129 / 1048576" "vy clamp_input = - (6587023 / 1048576)"
  by (simp_all add: clamp_input_def)

lemma first_square_x: "binary32 (vx clamp_input * vx clamp_input) = 4246247 / 524288"
  using binary32_value [of "vx clamp_input * vx clamp_input" 20 "8492494"]
  by (simp add: round_even_def first_velocity)

lemma first_square_y: "binary32 (vy clamp_input * vy clamp_input) = 10344713 / 262144"
  using binary32_value [of "vy clamp_input * vy clamp_input" 18 "10344713"]
  by (simp add: round_even_def first_velocity)

lemma first_sum: "binary32 (4246247 / 524288 + 10344713 / 262144) = 3116959 / 65536"
  using binary32_value [of "4246247 / 524288 + 10344713 / 262144" 18 "12467836"]
  by (simp add: round_even_def)

lemma first_speed: "binary32 (sqrt (3116959 / 65536)) = 14462903 / 2097152"
  using binary32_sqrt_value [of "3116959 / 65536" "14462903" 21]
  by (simp add: power2_eq_square)

lemma first_quotient_x: "binary32 (vx clamp_input / (14462903 / 2097152)) = 3461641 / 8388608"
  using binary32_value [of "vx clamp_input / (14462903 / 2097152)" 25 "13846564"]
  by (simp add: round_even_def first_velocity)

lemma first_quotient_y: "binary32 (vy clamp_input / (14462903 / 2097152)) = - (1910265 / 2097152)"
  using binary32_value [of "vy clamp_input / (14462903 / 2097152)" 24 "-15282120"]
  by (simp add: round_even_def first_velocity)

lemma first_product_x: "binary32 (3461641 / 8388608 * MAX_SPEED) = 3461641 / 2097152"
  using binary32_value [of "3461641 / 8388608 * MAX_SPEED" 23 "13846564"]
  by (simp add: round_even_def MAX_SPEED_def)

lemma first_product_y: "binary32 (- (1910265 / 2097152) * MAX_SPEED) = - (1910265 / 524288)"
  using binary32_value [of "- (1910265 / 2097152) * MAX_SPEED" 22 "-15282120"]
  by (simp add: round_even_def MAX_SPEED_def)


lemma first_exceeds: "MAX_SPEED < (14462903 / 2097152 :: real)" by (simp add: MAX_SPEED_def)

lemma clamp_input_clamped:
  "limit_speed_binary32 clamp_input =
     clamp_input\<lparr>vx := 3461641 / 2097152, vy := - (1910265 / 524288)\<rparr>"
  by (rule limit_speed_binary32_clamped [OF first_square_x first_square_y first_sum first_speed
        first_exceeds first_quotient_x first_quotient_y first_product_x first_product_y])

lemma second_velocity: "vx (limit_speed_binary32 clamp_input) = 3461641 / 2097152"
  "vy (limit_speed_binary32 clamp_input) = - (1910265 / 524288)"
  by (simp_all add: clamp_input_clamped)

lemma second_square_x: "binary32 (vx (limit_speed_binary32 clamp_input) * vx (limit_speed_binary32 clamp_input)) = 1395 / 512"
  using binary32_value [of "vx (limit_speed_binary32 clamp_input) * vx (limit_speed_binary32 clamp_input)" 22 "11427840"]
  by (simp add: round_even_def second_velocity)

lemma second_square_y: "binary32 (vy (limit_speed_binary32 clamp_input) * vy (limit_speed_binary32 clamp_input)) = 13920259 / 1048576"
  using binary32_value [of "vy (limit_speed_binary32 clamp_input) * vy (limit_speed_binary32 clamp_input)" 20 "13920259"]
  by (simp add: round_even_def second_velocity)

lemma second_sum: "binary32 (1395 / 512 + 13920259 / 1048576) = 4194305 / 262144"
  using binary32_value [of "1395 / 512 + 13920259 / 1048576" 19 "8388610"]
  by (simp add: round_even_def)

lemma second_speed: "binary32 (sqrt (4194305 / 262144)) = 8388609 / 2097152"
  using binary32_sqrt_value [of "4194305 / 262144" "8388609" 21]
  by (simp add: power2_eq_square)

lemma second_quotient_x: "binary32 (vx (limit_speed_binary32 clamp_input) / (8388609 / 2097152)) = 6923281 / 16777216"
  using binary32_value [of "vx (limit_speed_binary32 clamp_input) / (8388609 / 2097152)" 25 "13846562"]
  by (simp add: round_even_def second_velocity)

lemma second_quotient_y: "binary32 (vy (limit_speed_binary32 clamp_input) / (8388609 / 2097152)) = - (7641059 / 8388608)"
  using binary32_value [of "vy (limit_speed_binary32 clamp_input) / (8388609 / 2097152)" 24 "-15282118"]
  by (simp add: round_even_def second_velocity)

lemma second_product_x: "binary32 (6923281 / 16777216 * MAX_SPEED) = 6923281 / 4194304"
  using binary32_value [of "6923281 / 16777216 * MAX_SPEED" 23 "13846562"]
  by (simp add: round_even_def MAX_SPEED_def)

lemma second_product_y: "binary32 (- (7641059 / 8388608) * MAX_SPEED) = - (7641059 / 2097152)"
  using binary32_value [of "- (7641059 / 8388608) * MAX_SPEED" 22 "-15282118"]
  by (simp add: round_even_def MAX_SPEED_def)

lemma second_exceeds: "MAX_SPEED < (8388609 / 2097152 :: real)" by (simp add: MAX_SPEED_def)

lemma clamp_input_clamped_twice:
  "limit_speed_binary32 (limit_speed_binary32 clamp_input) =
     (limit_speed_binary32 clamp_input)\<lparr>vx := 6923281 / 4194304, vy := - (7641059 / 2097152)\<rparr>"
  by (rule limit_speed_binary32_clamped [OF second_square_x second_square_y second_sum second_speed
        second_exceeds second_quotient_x second_quotient_y second_product_x second_product_y])

lemma clamp_input_binary32:
  "binary32 (vx clamp_input) = vx clamp_input" "binary32 (vy clamp_input) = vy clamp_input"
  using binary32_value [of "vx clamp_input" 22 "11936516"]
    binary32_value [of "vy clamp_input" 21 "- 13174046"]
  by (simp_all add: round_even_def first_velocity)

lemma clamped_norm: "MAX_SPEED < velocity_norm (limit_speed_binary32 clamp_input)"
  unfolding velocity_norm_def second_velocity MAX_SPEED_def
  by (rule real_less_rsqrt) simp

text \<open>
  C1, as the claim states it, fails in single precision. The velocity of the example agent,
  about (2.8458872, -6.2818747), consists of two \<^verbatim>\<open>float\<close> values; \<^verbatim>\<open>limit_speed\<close> computes the speed
  6.8964496 and stores about (1.6506391, -3.6435413). The magnitude of that velocity is greater
  than \<^verbatim>\<open>MAX_SPEED\<close> (its square is about 16.0000028), and a second clamp computes the speed
  4.0000005 and changes the velocity again: the clamp is not idempotent.
\<close>

theorem speed_clamp_counterexample:
  "binary32 (vx clamp_input) = vx clamp_input \<and> binary32 (vy clamp_input) = vy clamp_input \<and>
   MAX_SPEED < velocity_norm (limit_speed_binary32 clamp_input) \<and>
   limit_speed_binary32 (limit_speed_binary32 clamp_input) \<noteq> limit_speed_binary32 clamp_input"
proof -
  have "vx (limit_speed_binary32 (limit_speed_binary32 clamp_input)) \<noteq>
        vx (limit_speed_binary32 clamp_input)"
    by (simp add: clamp_input_clamped_twice second_velocity)
  then have "limit_speed_binary32 (limit_speed_binary32 clamp_input) \<noteq>
        limit_speed_binary32 clamp_input" by metis
  with clamp_input_binary32 clamped_norm show ?thesis by simp
qed

subsection \<open>The speed clamp in single precision: the error of rounding\<close>

text \<open>
  In the normal range the relative error of \<^const>\<open>binary32\<close> is at most \<open>2 ^ (- 24)\<close>; below it the
  result stays below the normal range; the sign is kept.
\<close>

lemma round_even_cases:
  "round_even y = \<lfloor>y\<rfloor> \<and> y - of_int \<lfloor>y\<rfloor> \<le> 1 / 2 \<or>
   round_even y = \<lfloor>y\<rfloor> + 1 \<and> 1 / 2 \<le> y - of_int \<lfloor>y\<rfloor>"
  by (simp add: round_even_def Let_def)

lemma round_even_error: "\<bar>of_int (round_even y) - y\<bar> \<le> 1 / 2"
  using round_even_cases [of y] by linarith

lemma round_even_nonneg: "0 \<le> y \<Longrightarrow> 0 \<le> round_even y"
  using round_even_cases [of y] by (auto simp: zero_le_floor)

lemma round_even_le:
  assumes "y \<le> of_int n"
  shows "round_even y \<le> n"
proof -
  have "real_of_int (round_even y) < of_int n + 1" using round_even_error [of y] assms by linarith
  then have "round_even y < n + 1" by (metis of_int_1 of_int_add of_int_less_iff)
  then show ?thesis by simp
qed

lemma round_even_ge:
  assumes "of_int n \<le> y"
  shows "n \<le> round_even y"
proof -
  have "of_int n - 1 < real_of_int (round_even y)" using round_even_error [of y] assms by linarith
  then have "n - 1 < round_even y" by (metis of_int_1 of_int_diff of_int_less_iff)
  then show ?thesis by simp
qed

lemma binary32_nonneg:
  assumes "0 \<le> x"
  shows "0 \<le> binary32 x"
proof (cases "x = 0")
  case True
  then show ?thesis by (simp add: binary32_def)
next
  case False
  define e where "e = max \<lfloor>log 2 \<bar>x\<bar>\<rfloor> (- 126) - 23"
  have "0 \<le> x / 2 powr of_int e" using assms by simp
  then have "0 \<le> round_even (x / 2 powr of_int e)" by (rule round_even_nonneg)
  then have "0 \<le> real_of_int (round_even (x / 2 powr of_int e)) * 2 powr of_int e" by simp
  then show ?thesis using False by (simp add: binary32_def e_def Let_def)
qed

lemma binary32_error:
  assumes "1 / 2 ^ 126 \<le> \<bar>x\<bar>"
  shows "\<bar>binary32 x - x\<bar> \<le> \<bar>x\<bar> / 2 ^ 24"
proof -
  have pos: "0 < \<bar>x\<bar>" using assms by (smt (verit) divide_pos_pos zero_less_power)
  then have nz: "x \<noteq> 0" by simp
  define l where "l = \<lfloor>log 2 \<bar>x\<bar>\<rfloor>"
  have l: "2 powr of_int l \<le> \<bar>x\<bar>"
    using floor_log_eq_powr_iff [of "\<bar>x\<bar>" 2 l] pos by (simp add: l_def)
  have "(2 :: real) powr of_int (- 126) \<le> \<bar>x\<bar>"
    using assms by (simp add: powr_minus_divide)
  then have "- 126 \<le> log 2 \<bar>x\<bar>" using pos by (simp add: le_log_iff)
  then have "- 126 \<le> l" unfolding l_def by (simp add: le_floor_iff)
  then have e: "max l (- 126) - 23 = l - 23" by simp
  define p where "p = 2 powr real_of_int (l - 23)"
  have p: "0 < p" by (simp add: p_def)
  have "p = 2 powr of_int l / 2 powr 23" by (simp add: p_def powr_diff)
  then have pl: "p * 2 ^ 23 = 2 powr of_int l" by simp
  have b: "binary32 x = of_int (round_even (x / p)) * p"
    using nz by (simp add: binary32_def Let_def e p_def flip: l_def)
  have "\<bar>of_int (round_even (x / p)) - x / p\<bar> * p \<le> 1 / 2 * p"
    by (rule mult_right_mono [OF round_even_error]) (use p in simp)
  moreover have "\<bar>of_int (round_even (x / p)) - x / p\<bar> * p = \<bar>binary32 x - x\<bar>"
  proof -
    have "(of_int (round_even (x / p)) - x / p) * p = binary32 x - x"
      using p by (simp add: b algebra_simps)
    then have "\<bar>binary32 x - x\<bar> = \<bar>of_int (round_even (x / p)) - x / p\<bar> * \<bar>p\<bar>"
      by (simp only: abs_mult [symmetric])
    then show ?thesis using p by simp
  qed
  ultimately have "\<bar>binary32 x - x\<bar> \<le> p / 2" by simp
  also have "\<dots> = (p * 2 ^ 23) / 2 ^ 24" by simp
  also have "\<dots> \<le> \<bar>x\<bar> / 2 ^ 24" unfolding pl using l by (simp add: divide_right_mono)
  finally show ?thesis .
qed

lemma binary32_small:
  assumes "\<bar>x\<bar> < 1 / 2 ^ 126"
  shows "\<bar>binary32 x\<bar> \<le> 1 / 2 ^ 126"
proof (cases "x = 0")
  case True
  then show ?thesis by (simp add: binary32_def)
next
  case False
  then have pos: "0 < \<bar>x\<bar>" by simp
  define l where "l = \<lfloor>log 2 \<bar>x\<bar>\<rfloor>"
  have "\<bar>x\<bar> < (2 :: real) powr of_int (- 126)"
    using assms by (simp add: powr_minus_divide)
  then have "log 2 \<bar>x\<bar> < - 126" using pos by (simp add: log_less_iff)
  then have "l < - 126" unfolding l_def by (simp add: floor_less_iff)
  then have e: "max l (- 126) - 23 = - 149" by simp
  define p :: real where "p = 1 / 2 ^ 149"
  have pp: "(2 :: real) powr - 149 = p" by (simp add: p_def powr_minus_divide)
  have p: "0 < p" by (simp add: p_def)
  have b: "binary32 x = of_int (round_even (x / p)) * p"
    using False by (simp add: binary32_def Let_def e pp flip: l_def)
  have "\<bar>x\<bar> / p \<le> 8388608" using assms by (simp add: p_def)
  then have y: "x / p \<le> of_int 8388608" "of_int (- 8388608) \<le> x / p"
    using p by (simp_all add: abs_le_iff field_simps)
  have r1: "round_even (x / p) \<le> 8388608" by (rule round_even_le [OF y(1)])
  have r2: "- 8388608 \<le> round_even (x / p)" by (rule round_even_ge [OF y(2)])
  have "\<bar>real_of_int (round_even (x / p))\<bar> \<le> 8388608"
    using r1 r2 by (simp add: abs_le_iff)
  then have "\<bar>real_of_int (round_even (x / p))\<bar> * p \<le> 8388608 * p"
    using p by (simp add: mult_right_mono)
  then show ?thesis using p by (simp add: b abs_mult p_def)
qed

lemma binary32_lower:
  assumes "0 \<le> x"
  shows "(1 - 1 / 2 ^ 24) * x - 1 / 2 ^ 126 \<le> binary32 x"
proof (cases "1 / 2 ^ 126 \<le> \<bar>x\<bar>")
  case True
  from binary32_error [OF True] have "\<bar>binary32 x - x\<bar> \<le> x / 2 ^ 24" using assms by simp
  then have "x - x / 2 ^ 24 \<le> binary32 x" by linarith
  then show ?thesis by (simp add: algebra_simps)
next
  case False
  then have "x < 1 / 2 ^ 126" using assms by simp
  moreover have "(1 - 1 / 2 ^ 24) * x \<le> x" using assms by (simp add: mult_left_le_one_le)
  moreover have "0 \<le> binary32 x" using assms by (rule binary32_nonneg)
  ultimately show ?thesis by linarith
qed

lemma binary32_lower_normal:
  assumes "1 / 2 ^ 126 \<le> x"
  shows "(1 - 1 / 2 ^ 24) * x \<le> binary32 x"
proof -
  have "0 < x" using assms by (smt (verit) divide_pos_pos zero_less_power)
  then have "1 / 2 ^ 126 \<le> \<bar>x\<bar>" using assms by simp
  from binary32_error [OF this] have "\<bar>binary32 x - x\<bar> \<le> x / 2 ^ 24" using \<open>0 < x\<close> by simp
  then have "x - x / 2 ^ 24 \<le> binary32 x" by linarith
  then show ?thesis by (simp add: algebra_simps)
qed

lemma binary32_upper_square:
  "(binary32 x)\<^sup>2 \<le> (1 + 1 / 2 ^ 24)\<^sup>2 * (x\<^sup>2 + (1 / 2 ^ 126)\<^sup>2)"
proof (cases "1 / 2 ^ 126 \<le> \<bar>x\<bar>")
  case True
  from binary32_error [OF True] have "\<bar>binary32 x\<bar> \<le> \<bar>x\<bar> + \<bar>x\<bar> / 2 ^ 24" by linarith
  then have "\<bar>binary32 x\<bar> \<le> (1 + 1 / 2 ^ 24) * \<bar>x\<bar>" by (simp add: algebra_simps)
  then have "\<bar>binary32 x\<bar>\<^sup>2 \<le> ((1 + 1 / 2 ^ 24) * \<bar>x\<bar>)\<^sup>2"
    by (rule power_mono) simp
  then have "(binary32 x)\<^sup>2 \<le> (1 + 1 / 2 ^ 24)\<^sup>2 * x\<^sup>2"
    by (simp only: power_mult_distrib power2_abs)
  moreover have "(1 + 1 / 2 ^ 24)\<^sup>2 * x\<^sup>2 \<le> (1 + 1 / 2 ^ 24)\<^sup>2 * (x\<^sup>2 + (1 / 2 ^ 126)\<^sup>2)"
    by (rule mult_left_mono) simp_all
  ultimately show ?thesis by (rule order_trans)
next
  case False
  then have "\<bar>x\<bar> < 1 / 2 ^ 126" by simp
  from binary32_small [OF this] have "\<bar>binary32 x\<bar>\<^sup>2 \<le> (1 / 2 ^ 126)\<^sup>2"
    by (rule power_mono) simp
  then have "(binary32 x)\<^sup>2 \<le> 1 * (0 + (1 / 2 ^ 126)\<^sup>2)" by simp
  also have "\<dots> \<le> (1 + 1 / 2 ^ 24)\<^sup>2 * (x\<^sup>2 + (1 / 2 ^ 126)\<^sup>2)"
    by (rule mult_mono) simp_all
  finally show ?thesis .
qed

lemma computed_speed_lower:
  fixes x y :: real
  assumes "16 \<le> x * x + y * y"
  shows "(1 - 1 / 2 ^ 22) * sqrt (x * x + y * y)
     \<le> binary32 (sqrt (binary32 (binary32 (x * x) + binary32 (y * y))))"
proof -
  define N where "N = x * x + y * y"
  define a where "a = binary32 (x * x)"
  define a' where "a' = binary32 (y * y)"
  define c where "c = binary32 (a + a')"
  have N: "16 \<le> N" using assms by (simp add: N_def)
  have "(1 - 1 / 2 ^ 24) * (x * x) - 1 / 2 ^ 126 \<le> a" unfolding a_def
    by (rule binary32_lower) simp
  moreover have "(1 - 1 / 2 ^ 24) * (y * y) - 1 / 2 ^ 126 \<le> a'" unfolding a'_def
    by (rule binary32_lower) simp
  ultimately have "(1 - 1 / 2 ^ 24) * N - 2 / 2 ^ 126 \<le> a + a'"
    by (simp add: N_def algebra_simps)
  moreover have "(1 - 2 / 2 ^ 24) * N \<le> (1 - 1 / 2 ^ 24) * N - 2 / 2 ^ 126"
    using N by simp
  ultimately have sum: "(1 - 2 / 2 ^ 24) * N \<le> a + a'" by (rule order_trans [rotated])
  have "1 / 2 ^ 126 \<le> (1 - 2 / 2 ^ 24) * N" using N by simp
  then have "1 / 2 ^ 126 \<le> a + a'" using sum by (rule order_trans)
  then have "(1 - 1 / 2 ^ 24) * (a + a') \<le> c" unfolding c_def by (rule binary32_lower_normal)
  moreover have "(1 - 1 / 2 ^ 24) * ((1 - 2 / 2 ^ 24) * N) \<le> (1 - 1 / 2 ^ 24) * (a + a')"
    by (rule mult_left_mono [OF sum]) simp
  moreover have "(1 - 3 / 2 ^ 24)\<^sup>2 * N \<le> (1 - 1 / 2 ^ 24) * ((1 - 2 / 2 ^ 24) * N)"
    using N by (simp add: power2_eq_square)
  ultimately have c: "(1 - 3 / 2 ^ 24)\<^sup>2 * N \<le> c" by linarith
  have "sqrt ((1 - 3 / 2 ^ 24)\<^sup>2 * N) \<le> sqrt c" using c by simp
  then have root: "(1 - 3 / 2 ^ 24) * sqrt N \<le> sqrt c"
    by (simp add: real_sqrt_mult)
  have "4 \<le> sqrt N" using N by (metis real_sqrt_le_iff sqrt_16)
  then have "1 / 2 ^ 126 \<le> (1 - 3 / 2 ^ 24) * sqrt N" by simp
  then have "1 / 2 ^ 126 \<le> sqrt c" using root by (rule order_trans)
  then have "(1 - 1 / 2 ^ 24) * sqrt c \<le> binary32 (sqrt c)" by (rule binary32_lower_normal)
  moreover have "(1 - 1 / 2 ^ 24) * ((1 - 3 / 2 ^ 24) * sqrt N) \<le> (1 - 1 / 2 ^ 24) * sqrt c"
    by (rule mult_left_mono [OF root]) simp
  moreover have "(1 - 1 / 2 ^ 22) * sqrt N \<le> (1 - 1 / 2 ^ 24) * ((1 - 3 / 2 ^ 24) * sqrt N)"
  proof -
    have "0 \<le> sqrt N" using N by simp
    then have "(1 - 1 / 2 ^ 22) * sqrt N \<le> ((1 - 1 / 2 ^ 24) * (1 - 3 / 2 ^ 24)) * sqrt N"
      by (rule mult_right_mono [rotated]) simp
    then show ?thesis by (simp only: mult.assoc)
  qed
  ultimately have "(1 - 1 / 2 ^ 22) * sqrt N \<le> binary32 (sqrt c)" by linarith
  then show ?thesis by (simp only: N_def c_def a_def a'_def)
qed

text \<open>
  The computed speed is at least \<open>1 - 2 ^ (- 22)\<close> times the magnitude of a velocity of
  magnitude 4 or more, so the magnitude is at most \<open>1 + 5 / 2 ^ 24\<close> times the larger of the
  computed speed and 4; the clamped velocity is within \<open>1 + 2 ^ (- 21)\<close> of \<^verbatim>\<open>MAX_SPEED\<close>.
\<close>

lemma norm_over_computed_speed:
  fixes x y :: real
  defines "s \<equiv> binary32 (sqrt (binary32 (binary32 (x * x) + binary32 (y * y))))"
  shows "sqrt (x * x + y * y) \<le> (1 + 5 / 2 ^ 24) * max s 4"
proof (cases "16 \<le> x * x + y * y")
  case True
  define S where "S = sqrt (x * x + y * y)"
  have S: "0 \<le> S" by (simp add: S_def)
  from computed_speed_lower [OF True] have low: "(1 - 1 / 2 ^ 22) * S \<le> s"
    by (simp only: S_def s_def)
  have "1 * S \<le> ((1 + 5 / 2 ^ 24) * (1 - 1 / 2 ^ 22)) * S"
    by (rule mult_right_mono [OF _ S]) simp
  then have "S \<le> (1 + 5 / 2 ^ 24) * ((1 - 1 / 2 ^ 22) * S)" by (simp only: mult.assoc mult_1)
  also have "\<dots> \<le> (1 + 5 / 2 ^ 24) * s" by (rule mult_left_mono [OF low]) simp
  also have "\<dots> \<le> (1 + 5 / 2 ^ 24) * max s 4" by (rule mult_left_mono) simp_all
  finally show ?thesis by (simp only: S_def)
next
  case False
  then have "sqrt (x * x + y * y) \<le> sqrt 16" by (simp only: real_sqrt_le_iff)
  then have "sqrt (x * x + y * y) \<le> 4" by (simp only: sqrt_16)
  also have "\<dots> \<le> 1 * max s 4" by simp
  also have "\<dots> \<le> (1 + 5 / 2 ^ 24) * max s 4" by (rule mult_right_mono) simp_all
  finally show ?thesis .
qed

lemma limit_speed_binary32_bound:
  "velocity_norm (limit_speed_binary32 b) \<le> MAX_SPEED * (1 + 1 / 2 ^ 21)"
proof -
  define x where "x = vx b"
  define y where "y = vy b"
  define s where "s = binary32 (sqrt (binary32 (binary32 (x * x) + binary32 (y * y))))"
  have K: "sqrt (x * x + y * y) \<le> (1 + 5 / 2 ^ 24) * max s 4"
    unfolding s_def by (rule norm_over_computed_speed)
  show ?thesis
  proof (cases "MAX_SPEED < s")
    case False
    then have "limit_speed_binary32 b = b"
      by (simp add: limit_speed_binary32_def Let_def s_def x_def y_def)
    moreover have "max s 4 = 4" using False by (simp add: MAX_SPEED_def)
    ultimately have "velocity_norm (limit_speed_binary32 b) \<le> (1 + 5 / 2 ^ 24) * 4"
      using K by (simp add: velocity_norm_def x_def y_def)
    then show ?thesis by (simp add: MAX_SPEED_def)
  next
    case True
    then have s: "4 < s" by (simp add: MAX_SPEED_def)
    define fx where "fx = binary32 (x / s)"
    define fy where "fy = binary32 (y / s)"
    define rx where "rx = binary32 (fx * 4)"
    define ry where "ry = binary32 (fy * 4)"
    have b': "limit_speed_binary32 b = b\<lparr>vx := rx, vy := ry\<rparr>"
      using True
      by (simp add: limit_speed_binary32_def Let_def s_def [symmetric] x_def [symmetric]
          y_def [symmetric] fx_def rx_def fy_def ry_def MAX_SPEED_def)
    have "max s 4 = s" using s by simp
    with K have "sqrt (x * x + y * y) \<le> (1 + 5 / 2 ^ 24) * s" by simp
    then have "(sqrt (x * x + y * y))\<^sup>2 \<le> ((1 + 5 / 2 ^ 24) * s)\<^sup>2"
      by (rule power_mono) simp
    moreover have "(sqrt (x * x + y * y))\<^sup>2 = x * x + y * y" by simp
    ultimately have "x * x + y * y \<le> (1 + 5 / 2 ^ 24)\<^sup>2 * s\<^sup>2"
      by (simp only: power_mult_distrib)
    then have "(x * x + y * y) / s\<^sup>2 \<le> (1 + 5 / 2 ^ 24)\<^sup>2"
      using s by (simp add: field_simps)
    moreover have "(x / s)\<^sup>2 + (y / s)\<^sup>2 = (x * x + y * y) / s\<^sup>2"
      by (simp add: power2_eq_square add_divide_distrib)
    ultimately have C: "(x / s)\<^sup>2 + (y / s)\<^sup>2 \<le> (1 + 5 / 2 ^ 24)\<^sup>2" by simp
    have Bx: "fx\<^sup>2 \<le> (1 + 1 / 2 ^ 24)\<^sup>2 * ((x / s)\<^sup>2 + (1 / 2 ^ 126)\<^sup>2)"
      unfolding fx_def by (rule binary32_upper_square)
    have By: "fy\<^sup>2 \<le> (1 + 1 / 2 ^ 24)\<^sup>2 * ((y / s)\<^sup>2 + (1 / 2 ^ 126)\<^sup>2)"
      unfolding fy_def by (rule binary32_upper_square)
    have Ax: "rx\<^sup>2 \<le> (1 + 1 / 2 ^ 24)\<^sup>2 * ((fx * 4)\<^sup>2 + (1 / 2 ^ 126)\<^sup>2)"
      unfolding rx_def by (rule binary32_upper_square)
    have Ay: "ry\<^sup>2 \<le> (1 + 1 / 2 ^ 24)\<^sup>2 * ((fy * 4)\<^sup>2 + (1 / 2 ^ 126)\<^sup>2)"
      unfolding ry_def by (rule binary32_upper_square)
    define X where "X = (x / s)\<^sup>2"
    define Y where "Y = (y / s)\<^sup>2"
    define FX where "FX = fx\<^sup>2"
    define FY where "FY = fy\<^sup>2"
    have C': "X + Y \<le> (1 + 5 / 2 ^ 24)\<^sup>2" using C by (simp only: X_def Y_def)
    have Bx': "FX \<le> (1 + 1 / 2 ^ 24)\<^sup>2 * (X + (1 / 2 ^ 126)\<^sup>2)"
      using Bx by (simp only: X_def FX_def)
    have By': "FY \<le> (1 + 1 / 2 ^ 24)\<^sup>2 * (Y + (1 / 2 ^ 126)\<^sup>2)"
      using By by (simp only: Y_def FY_def)
    have Ax': "rx\<^sup>2 \<le> (1 + 1 / 2 ^ 24)\<^sup>2 * (FX * 16 + (1 / 2 ^ 126)\<^sup>2)"
      using Ax by (simp add: FX_def power_mult_distrib)
    have Ay': "ry\<^sup>2 \<le> (1 + 1 / 2 ^ 24)\<^sup>2 * (FY * 16 + (1 / 2 ^ 126)\<^sup>2)"
      using Ay by (simp add: FY_def power_mult_distrib)
    have "rx\<^sup>2 + ry\<^sup>2 \<le> (4 * (1 + 1 / 2 ^ 21))\<^sup>2"
      using C' Bx' By' Ax' Ay' by (simp add: power2_eq_square)
    then have "rx * rx + ry * ry \<le> (4 * (1 + 1 / 2 ^ 21))\<^sup>2" by (simp only: power2_eq_square)
    then have "sqrt (rx * rx + ry * ry) \<le> 4 * (1 + 1 / 2 ^ 21)"
      by (intro real_le_lsqrt) simp_all
    then show ?thesis by (simp add: b' velocity_norm_def MAX_SPEED_def)
  qed
qed

subsection \<open>The speed bound and the clamp\<close>

text \<open>
  C1, amended. In exact arithmetic: from a well-formed state a tick of \<^verbatim>\<open>update_boids\<close> returns a
  well-formed state in which no agent is faster than \<^verbatim>\<open>MAX_SPEED\<close>, in every mode, so the bound
  holds after every tick; the clamp of \<^verbatim>\<open>limit_speed\<close> makes the magnitude the smaller of the
  magnitude and \<^verbatim>\<open>MAX_SPEED\<close>, multiplies both components by one factor in (0, 1], changes
  nothing when the magnitude is at most \<^verbatim>\<open>MAX_SPEED\<close>, and is idempotent. In single precision:
  the magnitude after the clamp is at most \<open>MAX_SPEED * (1 + 2 ^ (- 21))\<close>, and the clamp changes
  nothing when the computed speed is at most \<^verbatim>\<open>MAX_SPEED\<close>.
\<close>

theorem speed_clamp:
  assumes "well_formed (w, h, g)"
  shows "(\<exists>g'. update_boids w h g = Some g' \<and> well_formed (w, h, g') \<and>
            list_all (\<lambda>a. velocity_norm a \<le> MAX_SPEED) (boids g')) \<and>
     velocity_norm (limit_speed b) = min (velocity_norm b) MAX_SPEED \<and>
     (\<exists>c. 0 < c \<and> c \<le> 1 \<and> vx (limit_speed b) = c * vx b \<and> vy (limit_speed b) = c * vy b) \<and>
     (velocity_norm b \<le> MAX_SPEED \<longrightarrow> limit_speed b = b) \<and>
     limit_speed (limit_speed b) = limit_speed b \<and>
     velocity_norm (limit_speed_binary32 b) \<le> MAX_SPEED * (1 + 1 / 2 ^ 21) \<and>
     (binary32 (sqrt (binary32 (binary32 (vx b * vx b) + binary32 (vy b * vy b)))) \<le> MAX_SPEED
        \<longrightarrow> limit_speed_binary32 b = b)"
proof -
  from update_boids_total [OF assms] obtain g' where
    g': "update_boids w h g = Some g'" and wf: "well_formed (w, h, g')" by blast
  have "length (boids g) = NUM_BOIDS" using assms by (simp add: well_formed_def)
  from update_boids_speed [OF g' this]
  have tick: "\<exists>g'. update_boids w h g = Some g' \<and> well_formed (w, h, g') \<and>
            list_all (\<lambda>a. velocity_norm a \<le> MAX_SPEED) (boids g')"
    using g' wf by simp
  have same: "velocity_norm b \<le> MAX_SPEED \<longrightarrow> limit_speed b = b"
    by (simp add: limit_speed_unchanged)
  have same32: "binary32 (sqrt (binary32 (binary32 (vx b * vx b) + binary32 (vy b * vy b))))
      \<le> MAX_SPEED \<longrightarrow> limit_speed_binary32 b = b"
    by (simp add: limit_speed_binary32_def Let_def)
  show ?thesis
    apply (intro conjI)
          apply (rule tick)
         apply (rule velocity_norm_limit_speed)
        apply (rule limit_speed_direction)
       apply (rule same)
      apply (rule limit_speed_idem)
     apply (rule limit_speed_binary32_bound)
    apply (rule same32)
    done
qed

lemma pattern_crowd_well_formed:
  "well_formed (800, 600, initial_globals\<lparr>boids := example_crowd, current_mode := MODE_LISSAJOUS\<rparr>)"
  unfolding well_formed_def prod.case list_all_length
  by (simp add: initial_globals_def example_crowd_length example_crowd_nth)

lemma fast_boid_norm: "velocity_norm ((example_crowd ! 0)\<lparr>vx := 3, vy := 4\<rparr>) = 5"
  by (simp add: velocity_norm_def sqrt_25)

lemma fast_boid_clamped:
  "limit_speed ((example_crowd ! 0)\<lparr>vx := 3, vy := 4\<rparr>) =
     (example_crowd ! 0)\<lparr>vx := 12 / 5, vy := 16 / 5\<rparr>"
  by (simp add: limit_speed_def sqrt_25 MAX_SPEED_def)

lemma slow_boid_norm: "velocity_norm (example_crowd ! 0) \<le> MAX_SPEED"
proof -
  have "sqrt 2 \<le> sqrt 16" by (simp only: real_sqrt_le_iff)
  then show ?thesis by (simp add: velocity_norm_def example_crowd_0 sqrt_16 MAX_SPEED_def)
qed

lemma binary32_one: "binary32 1 = 1"
  using binary32_value [of 1 23 8388608] by (simp add: round_even_def)

lemma binary32_two: "binary32 2 = 2"
  using binary32_value [of 2 22 8388608] by (simp add: round_even_def)

lemma binary32_sqrt_two: "binary32 (sqrt 2) = 11863283 / 8388608"
  using binary32_sqrt_value [of 2 11863283 23] by (simp add: power2_eq_square)

lemma slow_boid_computed_speed:
  "binary32 (sqrt (binary32 (binary32 (vx (example_crowd ! 0) * vx (example_crowd ! 0)) +
      binary32 (vy (example_crowd ! 0) * vy (example_crowd ! 0))))) \<le> MAX_SPEED"
  by (simp add: example_crowd_0 binary32_one binary32_two binary32_sqrt_two MAX_SPEED_def)

text \<open>
  The crowd of agents at (400, 480) in an 800 by 600 viewport, in Normal mode and in the
  Lissajous pattern: a tick returns and no agent is faster than \<^verbatim>\<open>MAX_SPEED\<close>. An agent with
  velocity (3, 4) has speed 5 and is clamped to (2.4, 3.2); an agent with velocity (1, 1) is
  left as it is, also in single precision, where its computed speed is 1.4142135. The
  single-precision clamp of the example agent is within the bound.
\<close>

theorem speed_clamp_witness:
  "well_formed (800, 600, initial_globals\<lparr>boids := example_crowd\<rparr>) \<and>
   (\<exists>g'. update_boids 800 600 (initial_globals\<lparr>boids := example_crowd\<rparr>) = Some g' \<and>
      well_formed (800, 600, g') \<and> list_all (\<lambda>a. velocity_norm a \<le> MAX_SPEED) (boids g')) \<and>
   well_formed (800, 600, initial_globals\<lparr>boids := example_crowd, current_mode := MODE_LISSAJOUS\<rparr>) \<and>
   (\<exists>g'. update_boids 800 600
        (initial_globals\<lparr>boids := example_crowd, current_mode := MODE_LISSAJOUS\<rparr>) = Some g' \<and>
      well_formed (800, 600, g') \<and> list_all (\<lambda>a. velocity_norm a \<le> MAX_SPEED) (boids g')) \<and>
   velocity_norm ((example_crowd ! 0)\<lparr>vx := 3, vy := 4\<rparr>) = 5 \<and>
   limit_speed ((example_crowd ! 0)\<lparr>vx := 3, vy := 4\<rparr>) =
     (example_crowd ! 0)\<lparr>vx := 12 / 5, vy := 16 / 5\<rparr> \<and>
   velocity_norm (limit_speed ((example_crowd ! 0)\<lparr>vx := 3, vy := 4\<rparr>)) =
     min (velocity_norm ((example_crowd ! 0)\<lparr>vx := 3, vy := 4\<rparr>)) MAX_SPEED \<and>
   (\<exists>c. 0 < c \<and> c \<le> 1 \<and>
      vx (limit_speed ((example_crowd ! 0)\<lparr>vx := 3, vy := 4\<rparr>)) =
        c * vx ((example_crowd ! 0)\<lparr>vx := 3, vy := 4\<rparr>) \<and>
      vy (limit_speed ((example_crowd ! 0)\<lparr>vx := 3, vy := 4\<rparr>)) =
        c * vy ((example_crowd ! 0)\<lparr>vx := 3, vy := 4\<rparr>)) \<and>
   limit_speed (limit_speed ((example_crowd ! 0)\<lparr>vx := 3, vy := 4\<rparr>)) =
     limit_speed ((example_crowd ! 0)\<lparr>vx := 3, vy := 4\<rparr>) \<and>
   velocity_norm (example_crowd ! 0) \<le> MAX_SPEED \<and>
   limit_speed (example_crowd ! 0) = example_crowd ! 0 \<and>
   binary32 (sqrt (binary32 (binary32 (vx (example_crowd ! 0) * vx (example_crowd ! 0)) +
      binary32 (vy (example_crowd ! 0) * vy (example_crowd ! 0))))) \<le> MAX_SPEED \<and>
   limit_speed_binary32 (example_crowd ! 0) = example_crowd ! 0 \<and>
   limit_speed_binary32 clamp_input =
     clamp_input\<lparr>vx := 3461641 / 2097152, vy := - (1910265 / 524288)\<rparr> \<and>
   velocity_norm (limit_speed_binary32 clamp_input) \<le> MAX_SPEED * (1 + 1 / 2 ^ 21)"
proof -
  note normal = speed_clamp [OF crowd_well_formed, of "(example_crowd ! 0)\<lparr>vx := 3, vy := 4\<rparr>"]
  note pattern = speed_clamp [OF pattern_crowd_well_formed, of "example_crowd ! 0"]
  note rounded = speed_clamp [OF crowd_well_formed, of clamp_input]
  note n2 = conjunct2 [OF normal]
  note n3 = conjunct2 [OF n2]
  note n4 = conjunct2 [OF n3]
  note n5 = conjunct2 [OF n4]
  note p2 = conjunct2 [OF pattern]
  note p3 = conjunct2 [OF p2]
  note p4 = conjunct2 [OF p3]
  note p5 = conjunct2 [OF p4]
  note p6 = conjunct2 [OF p5]
  note r6 = conjunct2 [OF conjunct2 [OF conjunct2 [OF conjunct2 [OF conjunct2 [OF rounded]]]]]
  show ?thesis
    apply (intro conjI)
                  apply (rule crowd_well_formed)
                 apply (rule conjunct1 [OF normal])
                apply (rule pattern_crowd_well_formed)
               apply (rule conjunct1 [OF pattern])
              apply (rule fast_boid_norm)
             apply (rule fast_boid_clamped)
            apply (rule conjunct1 [OF n2])
           apply (rule conjunct1 [OF n3])
          apply (rule conjunct1 [OF n5])
         apply (rule slow_boid_norm)
        apply (rule mp [OF conjunct1 [OF p4] slow_boid_norm])
       apply (rule slow_boid_computed_speed)
      apply (rule mp [OF conjunct2 [OF p6] slow_boid_computed_speed])
     apply (rule clamp_input_clamped)
    apply (rule conjunct1 [OF r6])
    done
qed

end
